theory Spec2Isabelle
  imports Main "HOL-Library.Word"
begin

section \<open>The virtual table adapter of osquery/core/virtual_table.h\<close>

text \<open>
  The header implements the callbacks SQLite invokes on a virtual table: \<open>xCreate\<close>,
  \<open>xBestIndex\<close>, \<open>xFilter\<close>, \<open>xEof\<close>, \<open>xColumn\<close>. Each callback becomes a HOL function
  over the state it reads and writes. Objects reached through pointers are passed and
  returned explicitly; an unchecked \<open>operator[]\<close> on a \<open>std::vector\<close> outside its bounds is
  undefined behaviour in C++ and is a \<open>fault\<close> of the model, kept apart from the return
  codes the callbacks hand back to the engine.
\<close>

subsection \<open>Return codes, faults and integer conversions\<close>

definition SQLITE_OK :: int where "SQLITE_OK = 0"
definition SQLITE_ERROR :: int where "SQLITE_ERROR = 1"
definition SQLITE_NOMEM :: int where "SQLITE_NOMEM = 7"

definition INT_MAX :: int where "INT_MAX = 2147483647"

text \<open>
  Undefined behaviour the callbacks can run into: an index past the end of
  \<open>column_names\<close>, \<open>types\<close>, \<open>constraints\<close> or \<open>aConstraintUsage\<close>, a \<open>std::string\<close> built
  from a null pointer, and the signed overflow of the row counter \<open>n\<close>.
\<close>

datatype fault =
    ColumnNamesOutOfRange
  | TypesOutOfRange
  | ConstraintsOutOfRange
  | UsageOutOfRange
  | NullArgument
  | SignedOverflow

text \<open>
  \<open>int\<close> values of the source (\<open>row\<close>, \<open>n\<close>, \<open>col\<close>, \<open>iColumn\<close>, \<open>argvIndex\<close>) are HOL
  integers. Where the source compares an \<open>int\<close> with a \<open>size_t\<close> or uses it as a vector
  index, the \<open>int\<close> is converted to the 64-bit unsigned \<open>size_t\<close>: a negative value becomes a
  huge index.
\<close>

definition to_size_t :: "int \<Rightarrow> nat" where
  "to_size_t x = nat (x mod 2 ^ 64)"

text \<open>The values a 32-bit \<open>int\<close> can hold.\<close>

definition is_int :: "int \<Rightarrow> bool" where
  "is_int x = (- INT_MAX - 1 \<le> x \<and> x \<le> INT_MAX)"

subsection \<open>Data\<close>

text \<open>\<open>struct base_cursor\<close>: the cursor position.\<close>

record base_cursor =
  row :: int

text \<open>
  Modelled from the spec: \<open>Constraint\<close>, \<open>ConstraintSet\<close>, \<open>ConstraintList\<close> and
  \<open>QueryContext\<close> are declared in osquery/tables.h, which is not among the sources. A
  constraint is an operator (SQLite's \<open>unsigned char op\<close>) and a literal expression that
  is empty until the engine supplies it; the ConstraintSet is the ordered sequence of
  (column name, Constraint) pairs; the QueryContext maps a column name to the column's
  affinity and the constraints on that column, kept here in the order they were added.
\<close>

record Constraint =
  operator :: "8 word"
  expr :: string

text \<open>The constructor \<open>Constraint(op)\<close>: the operator, and no literal yet.\<close>

definition Constraint_of :: "8 word \<Rightarrow> Constraint" where
  "Constraint_of o' = \<lparr>operator = o', expr = []\<rparr>"

type_synonym ConstraintSet = "(string \<times> Constraint) list"

record ConstraintList =
  affinity :: string
  cl_constraints :: "Constraint list"

definition ConstraintList_default :: ConstraintList where
  "ConstraintList_default = \<lparr>affinity = [], cl_constraints = []\<rparr>"

definition add :: "ConstraintList \<Rightarrow> Constraint \<Rightarrow> ConstraintList" where
  "add cl k = cl\<lparr>cl_constraints := cl_constraints cl @ [k]\<rparr>"

type_synonym QueryContext = "string \<rightharpoonup> ConstraintList"

text \<open>
  \<open>std::map::operator[]\<close> on an absent key inserts a default-constructed value and
  returns it: \<open>qc_at\<close> is the value read, and writing back through the reference stores
  under the key.
\<close>

definition qc_at :: "QueryContext \<Rightarrow> string \<Rightarrow> ConstraintList" where
  "qc_at req k = (case req k of None \<Rightarrow> ConstraintList_default | Some cl \<Rightarrow> cl)"

text \<open>A generated row: a \<open>std::map\<close> from column name to string value.\<close>

type_synonym Row = "string \<rightharpoonup> string"

definition row_at :: "Row \<Rightarrow> string \<Rightarrow> string" where
  "row_at r k = (case r k of None \<Rightarrow> [] | Some v \<Rightarrow> v)"

text \<open>
  \<open>struct osquery_table\<close> together with the schema fields of the plugin type \<open>T\<close> that
  derives from it (\<open>name\<close>, \<open>types\<close>, \<open>column_names\<close>): the content behind
  \<open>x_vtab<T>::pContent\<close>.
\<close>

record content =
  name :: string
  types :: "string list"
  column_names :: "string list"
  n :: int
  columns :: "string \<rightharpoonup> string list"
  constraints :: ConstraintSet

definition vec_at :: "(string \<rightharpoonup> string list) \<Rightarrow> string \<Rightarrow> string list" where
  "vec_at m k = (case m k of None \<Rightarrow> [] | Some v \<Rightarrow> v)"

definition touch :: "(string \<rightharpoonup> string list) \<Rightarrow> string \<Rightarrow> (string \<rightharpoonup> string list)" where
  "touch m k = (case m k of None \<Rightarrow> m(k \<mapsto> []) | Some v \<Rightarrow> m)"

text \<open>\<open>struct x_vtab<T>\<close>: the adapter object, holding its content.\<close>

record x_vtab =
  pContent :: content

text \<open>
  What a column read hands to the engine: \<open>sqlite3_result_text\<close>, \<open>sqlite3_result_int\<close>
  or \<open>sqlite3_result_int64\<close>.
\<close>

datatype sqlite_result =
    ResultText string
  | ResultInt int
  | ResultInt64 int

text \<open>
  A \<open>const char *\<close> read as a zero-terminated string: the bytes before the first zero
  byte. It is what \<open>sqlite3_result_text\<close> takes from \<open>value.c_str()\<close> when its length
  argument is \<open>-1\<close>, and what the constructor \<open>std::string(expr)\<close> takes from \<open>expr\<close>.
\<close>

definition c_str :: "string \<Rightarrow> string" where
  "c_str s = takeWhile (\<lambda>ch. ch \<noteq> CHR 0x00) s"

subsection \<open>Strict numeric parsing\<close>

text \<open>
  \<open>boost::lexical_cast\<close> from a \<open>std::string\<close> to a signed integer type (in the classic
  locale) accepts an optional sign followed by one or more decimal digits and nothing
  else, and throws \<open>bad_lexical_cast\<close> when the text has another shape or the value does
  not fit the target type. \<open>None\<close> is the exception; \<open>int\<close> has 32 bits and \<open>long long\<close>
  has 64.
\<close>

definition is_digit :: "char \<Rightarrow> bool" where
  "is_digit ch = (48 \<le> (of_char ch :: int) \<and> (of_char ch :: int) \<le> 57)"

definition digit_value :: "char \<Rightarrow> int" where
  "digit_value ch = of_char ch - 48"

fun digits_value :: "string \<Rightarrow> int \<Rightarrow> int option" where
  "digits_value [] acc = Some acc"
| "digits_value (ch # cs) acc =
     (if is_digit ch then digits_value cs (10 * acc + digit_value ch) else None)"

definition parse_unsigned :: "string \<Rightarrow> int option" where
  "parse_unsigned s = (if s = [] then None else digits_value s 0)"

definition parse_signed :: "string \<Rightarrow> int option" where
  "parse_signed s =
     (case s of
        [] \<Rightarrow> None
      | ch # cs \<Rightarrow>
          if ch = CHR ''-'' then map_option uminus (parse_unsigned cs)
          else if ch = CHR ''+'' then parse_unsigned cs
          else parse_unsigned s)"

definition lexical_cast :: "nat \<Rightarrow> string \<Rightarrow> int option" where
  "lexical_cast bits s =
     (case parse_signed s of
        None \<Rightarrow> None
      | Some v \<Rightarrow> if - (2 ^ (bits - 1)) \<le> v \<and> v < 2 ^ (bits - 1) then Some v else None)"

definition lexical_cast_int :: "string \<Rightarrow> int option" where
  "lexical_cast_int s = lexical_cast 32 s"

definition lexical_cast_long_long :: "string \<Rightarrow> int option" where
  "lexical_cast_long_long s = lexical_cast 64 s"

subsection \<open>xEof, xNext\<close>

definition xEof :: "content \<Rightarrow> base_cursor \<Rightarrow> bool" where
  "xEof c cur = (row cur \<ge> n c)"

text \<open>
  Modelled from the spec: \<open>xNext\<close> is declared in the header and defined outside the
  sources; it advances the cursor position by one, with no bounds check.
\<close>

definition xNext :: "base_cursor \<Rightarrow> base_cursor" where
  "xNext cur = cur\<lparr>row := row cur + 1\<rparr>"

subsection \<open>xColumn\<close>

text \<open>
  The branch of \<open>xColumn\<close> on the declared type (lines 122 to 144): the value handed to
  the engine, if any, and the warnings logged.
\<close>

definition coerce :: "string \<Rightarrow> string \<Rightarrow> string \<Rightarrow> sqlite_result option \<times> string list" where
  "coerce column_name type val =
     (if type = ''TEXT'' then (Some (ResultText (c_str val)), [])
      else if type = ''INTEGER'' then
        (case lexical_cast_int val of
           Some afinite \<Rightarrow> (Some (ResultInt afinite), [])
         | None \<Rightarrow> (Some (ResultInt (- 1)),
             [''Error casting '' @ column_name @ '' ('' @ val @ '') to INTEGER'']))
      else if type = ''BIGINT'' then
        (case lexical_cast_long_long val of
           Some afinite \<Rightarrow> (Some (ResultInt64 afinite), [])
         | None \<Rightarrow> (Some (ResultInt64 (- 1)),
             [''Error casting '' @ column_name @ '' ('' @ val @ '') to BIGINT'']))
      else (None, []))"

text \<open>
  \<open>xColumn\<close> returns the return code, the content (reading \<open>columns[column_name]\<close> inserts
  an empty vector under an absent key), the result set on the context and the warnings
  logged.
\<close>

definition xColumn ::
  "content \<Rightarrow> base_cursor \<Rightarrow> int \<Rightarrow> fault + (int \<times> content \<times> sqlite_result option \<times> string list)" where
  "xColumn c cur col =
     (if to_size_t col \<ge> length (column_names c) then Inr (SQLITE_ERROR, c, None, [])
      else if to_size_t col \<ge> length (types c) then Inl TypesOutOfRange
      else
        let column_name = column_names c ! to_size_t col;
            type = types c ! to_size_t col;
            c' = c\<lparr>columns := touch (columns c) column_name\<rparr>
        in if to_size_t (row cur) \<ge> length (vec_at (columns c) column_name)
           then Inr (SQLITE_ERROR, c', None, [])
           else
             let val = vec_at (columns c) column_name ! to_size_t (row cur);
                 out = coerce column_name type val
             in Inr (SQLITE_OK, c', fst out, snd out))"

subsection \<open>xBestIndex\<close>

text \<open>
  SQLite's \<open>sqlite3_index_info\<close>: the offered candidates \<open>aConstraint\<close> (column index,
  operator, usable flag) and, for each of them, the \<open>argvIndex\<close> of \<open>aConstraintUsage\<close>
  that the callback may set. \<open>nConstraint\<close> is the length of \<open>aConstraint\<close>.
\<close>

record sqlite3_index_constraint =
  iColumn :: int
  op :: "8 word"
  usable :: bool

record sqlite3_index_info =
  aConstraint :: "sqlite3_index_constraint list"
  aConstraintUsage :: "int list"

text \<open>
  The loop of \<open>xBestIndex\<close> over the candidates still to visit: \<open>i\<close> is the loop index,
  \<open>expr_index\<close> the counter of accepted candidates.
\<close>

fun xBestIndex_loop ::
  "string list \<Rightarrow> sqlite3_index_constraint list \<Rightarrow> nat \<Rightarrow> int \<Rightarrow>
   ConstraintSet \<times> int list \<Rightarrow> fault + (ConstraintSet \<times> int list)" where
  "xBestIndex_loop names [] i expr_index acc = Inr acc"
| "xBestIndex_loop names (k # ks) i expr_index (cs, us) =
     (if \<not> usable k then xBestIndex_loop names ks (Suc i) expr_index (cs, us)
      else if length names \<le> to_size_t (iColumn k) then Inl ColumnNamesOutOfRange
      else if length us \<le> i then Inl UsageOutOfRange
      else xBestIndex_loop names ks (Suc i) (expr_index + 1)
             (cs @ [(names ! to_size_t (iColumn k), Constraint_of (op k))],
              us[i := expr_index + 1]))"

definition xBestIndex ::
  "content \<Rightarrow> sqlite3_index_info \<Rightarrow> fault + (int \<times> content \<times> sqlite3_index_info)" where
  "xBestIndex c pIdxInfo =
     (case xBestIndex_loop (column_names c) (aConstraint pIdxInfo) 0 0
             (constraints c, aConstraintUsage pIdxInfo) of
        Inl f \<Rightarrow> Inl f
      | Inr (cs, us) \<Rightarrow>
          Inr (SQLITE_OK, c\<lparr>constraints := cs\<rparr>, pIdxInfo\<lparr>aConstraintUsage := us\<rparr>))"

subsection \<open>xFilter\<close>

text \<open>
  First loop (lines 182 to 186): for every column index \<open>i\<close>, clear the column's buffer
  and store \<open>types[i]\<close> as the column's affinity in the request. The two vectors are
  walked together; \<open>types\<close> running out first is the out-of-range read of \<open>types[i]\<close>.
\<close>

fun reset_columns ::
  "string list \<Rightarrow> string list \<Rightarrow> (string \<rightharpoonup> string list) \<times> QueryContext \<Rightarrow>
   fault + ((string \<rightharpoonup> string list) \<times> QueryContext)" where
  "reset_columns [] ts acc = Inr acc"
| "reset_columns (nm # nms) [] acc = Inl TypesOutOfRange"
| "reset_columns (nm # nms) (t # ts) (cols, req) =
     reset_columns nms ts (cols(nm \<mapsto> []), req(nm \<mapsto> (qc_at req nm)\<lparr>affinity := t\<rparr>))"

text \<open>
  Second loop (lines 188 to 195): for every argument index \<open>i\<close>, write \<open>argv[i]\<close> into
  the expression of \<open>constraints[i]\<close> and add that constraint to the request under its
  column. An element of \<open>argv\<close> is what \<open>sqlite3_value_text\<close> returns for the argument: its
  bytes, or a null pointer (\<open>None\<close>; SQLite returns it for an SQL NULL), from which
  \<open>std::string(expr)\<close> cannot be built. \<open>std::string(expr)\<close> reads the \<open>const char *\<close> as a
  zero-terminated string, so the literal stored is \<open>c_str\<close> of the bytes. The arguments
  and the ConstraintSet are walked together, and the ConstraintSet running out first is
  the out-of-range access \<open>constraints[i]\<close>.
\<close>

fun bind_literals ::
  "string option list \<Rightarrow> ConstraintSet \<Rightarrow> QueryContext \<Rightarrow>
   fault + (ConstraintSet \<times> QueryContext)" where
  "bind_literals [] cs req = Inr (cs, req)"
| "bind_literals (a # as) [] req = Inl ConstraintsOutOfRange"
| "bind_literals (None # as) ((nm, k) # cs) req = Inl NullArgument"
| "bind_literals (Some e # as) ((nm, k) # cs) req =
     (case bind_literals as cs (req(nm \<mapsto> add (qc_at req nm) (k\<lparr>expr := c_str e\<rparr>))) of
        Inl f \<Rightarrow> Inl f
      | Inr (cs', req') \<Rightarrow> Inr ((nm, k\<lparr>expr := c_str e\<rparr>) # cs', req'))"

text \<open>
  Third loop (lines 197 to 202): every generated row appends, for each declared column
  in schema order, \<open>row[column_name]\<close> to the column's buffer; then \<open>n\<close> is incremented.
\<close>

fun push_row :: "Row \<Rightarrow> string list \<Rightarrow> (string \<rightharpoonup> string list) \<Rightarrow> (string \<rightharpoonup> string list)" where
  "push_row r [] cols = cols"
| "push_row r (nm # nms) cols = push_row r nms (cols(nm \<mapsto> vec_at cols nm @ [row_at r nm]))"

fun buffer_rows ::
  "Row list \<Rightarrow> string list \<Rightarrow> (string \<rightharpoonup> string list) \<times> int \<Rightarrow>
   fault + ((string \<rightharpoonup> string list) \<times> int)" where
  "buffer_rows [] names acc = Inr acc"
| "buffer_rows (r # rs) names (cols, cnt) =
     (if INT_MAX \<le> cnt then Inl SignedOverflow
      else buffer_rows rs names (push_row r names cols, cnt + 1))"

text \<open>
  The state \<open>xFilter\<close> has built when it calls the plugin: the cleared buffers, the
  ConstraintSet with the literals bound, and the request.
\<close>

definition xFilter_prepare ::
  "content \<Rightarrow> string option list \<Rightarrow>
   fault + ((string \<rightharpoonup> string list) \<times> ConstraintSet \<times> QueryContext)" where
  "xFilter_prepare c argv =
     (case reset_columns (column_names c) (types c) (columns c, Map.empty) of
        Inl f \<Rightarrow> Inl f
      | Inr (cols, req) \<Rightarrow>
          (case bind_literals argv (constraints c) req of
             Inl f \<Rightarrow> Inl f
           | Inr (cs, req') \<Rightarrow> Inr (cols, cs, req')))"

text \<open>
  \<open>generate\<close> is the plugin's row generation, a function of the request that returns
  its rows (a plugin that throws is not modelled). \<open>argc\<close> is the length of \<open>argv\<close>.
\<close>

definition xFilter ::
  "content \<Rightarrow> base_cursor \<Rightarrow> (QueryContext \<Rightarrow> Row list) \<Rightarrow> string option list \<Rightarrow>
   fault + (int \<times> content \<times> base_cursor)" where
  "xFilter c cur generate argv =
     (case xFilter_prepare c argv of
        Inl f \<Rightarrow> Inl f
      | Inr (cols, cs, req) \<Rightarrow>
          (case buffer_rows (generate req) (column_names c) (cols, 0) of
             Inl f \<Rightarrow> Inl f
           | Inr (cols', cnt) \<Rightarrow>
               Inr (SQLITE_OK, c\<lparr>n := cnt, columns := cols', constraints := cs\<rparr>,
                    cur\<lparr>row := 0\<rparr>)))"

subsection \<open>xCreate\<close>

text \<open>
  \<open>new T\<close>: the plugin's constructor fixes the schema fields; the members of
  \<open>osquery_table\<close> are default-initialised, so \<open>columns\<close> and \<open>constraints\<close> start empty and
  \<open>n\<close> holds an indeterminate value \<open>n0\<close>.
\<close>

definition new_T :: "string \<Rightarrow> string list \<Rightarrow> string list \<Rightarrow> int \<Rightarrow> content" where
  "new_T nm tys cols n0 =
     \<lparr>name = nm, types = tys, column_names = cols, n = n0, columns = Map.empty,
      constraints = []\<rparr>"

text \<open>
  \<open>xCreate\<close> returns the return code and what \<open>*ppVtab\<close> holds afterwards.
  \<open>statement\<close> (declared in the header, defined elsewhere) and the engine's
  \<open>sqlite3_declare_vtab\<close> are parameters; \<open>alloc_ok\<close> says whether \<open>new x_vtab<T>\<close>
  gave a non-null pointer; \<open>fresh\<close> is the object \<open>new T\<close> constructs.
\<close>

definition xCreate ::
  "(string \<Rightarrow> string list \<Rightarrow> string list \<Rightarrow> string) \<Rightarrow> (string \<Rightarrow> int) \<Rightarrow> bool \<Rightarrow> content \<Rightarrow>
   x_vtab option \<Rightarrow> int \<times> x_vtab option" where
  "xCreate statement sqlite3_declare_vtab alloc_ok fresh ppVtab =
     (if \<not> alloc_ok then (SQLITE_NOMEM, ppVtab)
      else
        let pVtab = \<lparr>pContent = fresh\<rparr>;
            create = statement (name fresh) (types fresh) (column_names fresh);
            rc = sqlite3_declare_vtab create
        in (rc, Some pVtab))"

subsection \<open>The engine's scan\<close>

text \<open>
  After \<open>xFilter\<close> the engine reads the table: while \<open>xEof\<close> is false it calls \<open>xColumn\<close>
  for the column indices \<open>0, 1, ...\<close> of the schema and then \<open>xNext\<close>. \<open>read_row\<close> collects
  what the column reads of one row return; \<open>scan\<close> collects the rows until \<open>xEof\<close>.
\<close>

fun read_row ::
  "content \<Rightarrow> base_cursor \<Rightarrow> int list \<Rightarrow>
   fault + (content \<times> (int \<times> sqlite_result option \<times> string list) list)" where
  "read_row c cur [] = Inr (c, [])"
| "read_row c cur (col # cols) =
     (case xColumn c cur col of
        Inl f \<Rightarrow> Inl f
      | Inr (rc, c', res, warnings) \<Rightarrow>
          (case read_row c' cur cols of
             Inl f \<Rightarrow> Inl f
           | Inr (c'', outs) \<Rightarrow> Inr (c'', (rc, res, warnings) # outs)))"

lemma xColumn_n: "xColumn c cur col = Inr (rc, c', res, warnings) \<Longrightarrow> n c' = n c"
  by (auto simp: xColumn_def Let_def split: if_splits)

lemma read_row_n: "read_row c cur cols = Inr (c', outs) \<Longrightarrow> n c' = n c"
proof (induction cols arbitrary: c outs)
  case Nil
  then show ?case by simp
next
  case (Cons col cols)
  then show ?case
    by (fastforce split: sum.splits dest: xColumn_n)
qed

function scan ::
  "content \<Rightarrow> base_cursor \<Rightarrow> fault + ((int \<times> sqlite_result option \<times> string list) list list)" where
  "scan c cur =
     (if xEof c cur then Inr []
      else
        (case read_row c cur (map int [0..<length (column_names c)]) of
           Inl f \<Rightarrow> Inl f
         | Inr (c', outs) \<Rightarrow>
             (case scan c' (xNext cur) of
                Inl f \<Rightarrow> Inl f
              | Inr rest \<Rightarrow> Inr (outs # rest))))"
  by pat_completeness auto
termination
proof (relation "measure (\<lambda>(c, cur). nat (n c - row cur))")
  show "wf (measure (\<lambda>(c, cur). nat (n c - row cur)))"
    by simp
next
  fix c :: content and cur :: base_cursor and x2 x y
  assume "\<not> xEof c cur"
    and "read_row c cur (map int [0..<length (column_names c)]) = Inr x2"
    and "(x, y) = x2"
  then show "((x, xNext cur), (c, cur)) \<in> measure (\<lambda>(c, cur). nat (n c - row cur))"
    using read_row_n [of c cur _ x y] by (auto simp: xEof_def xNext_def)
qed

section \<open>Closed forms and concrete inputs\<close>

subsection \<open>What the loops compute\<close>

text \<open>
  Closed forms of the three loops of \<open>xFilter\<close>: the buffers after the first loop, the
  request after the affinities are stored, the ConstraintSet after the literals are
  bound, the request after the bound constraints are added, and the buffers after the
  rows are appended.
\<close>

definition cleared :: "string list \<Rightarrow> (string \<rightharpoonup> string list) \<Rightarrow> (string \<rightharpoonup> string list)" where
  "cleared names cols = (\<lambda>k. if k \<in> set names then Some [] else cols k)"

fun with_affinities :: "string list \<Rightarrow> string list \<Rightarrow> QueryContext \<Rightarrow> QueryContext" where
  "with_affinities (nm # nms) (t # ts) req =
     with_affinities nms ts (req(nm \<mapsto> (qc_at req nm)\<lparr>affinity := t\<rparr>))"
| "with_affinities nms ts req = req"

definition bound :: "string list \<Rightarrow> ConstraintSet \<Rightarrow> ConstraintSet" where
  "bound lits cs =
     map (\<lambda>(p, a). (fst p, (snd p)\<lparr>expr := c_str a\<rparr>)) (zip cs lits) @
     drop (length lits) cs"

fun add_all :: "ConstraintSet \<Rightarrow> QueryContext \<Rightarrow> QueryContext" where
  "add_all [] req = req"
| "add_all (p # ps) req = add_all ps (req(fst p \<mapsto> add (qc_at req (fst p)) (snd p)))"

definition buffered ::
  "string list \<Rightarrow> Row list \<Rightarrow> (string \<rightharpoonup> string list) \<Rightarrow> (string \<rightharpoonup> string list)" where
  "buffered names rs cols =
     (\<lambda>k. if k \<in> set names then Some (vec_at cols k @ map (\<lambda>r. row_at r k) rs) else cols k)"

text \<open>The request \<open>xFilter\<close> hands to the plugin (empty when the preparation faults).\<close>

definition xFilter_request :: "content \<Rightarrow> string option list \<Rightarrow> QueryContext" where
  "xFilter_request c argv =
     (case xFilter_prepare c argv of Inl f \<Rightarrow> Map.empty | Inr (cols, cs, req) \<Rightarrow> req)"

text \<open>
  Closed form of the \<open>argvIndex\<close> values \<open>xBestIndex\<close> leaves: walking the candidates and
  their usage entries together, an accepted candidate gets the next value of the
  counter and a rejected one keeps its entry.
\<close>

fun assigned :: "sqlite3_index_constraint list \<Rightarrow> int \<Rightarrow> int list \<Rightarrow> int list" where
  "assigned (k # ks) e (u # us) =
     (if usable k then (e + 1) # assigned ks (e + 1) us else u # assigned ks e us)"
| "assigned ks e us = us"

definition proposed :: "string list \<Rightarrow> sqlite3_index_constraint list \<Rightarrow> ConstraintSet" where
  "proposed names ks =
     map (\<lambda>k. (names ! nat (iColumn k), \<lparr>operator = op k, expr = []\<rparr>)) (filter usable ks)"

subsection \<open>Concrete inputs\<close>

text \<open>
  A table of processes with three declared columns and two buffered rows, used to
  evaluate the callbacks on concrete inputs.
\<close>

definition processes :: content where
  "processes =
     \<lparr>name = ''processes'',
      types = [''INTEGER'', ''TEXT'', ''BIGINT''],
      column_names = [''pid'', ''name'', ''rss''],
      n = 2,
      columns = [''pid'' \<mapsto> [''42'', ''abc''], ''name'' \<mapsto> [''init'', []],
                 ''rss'' \<mapsto> [''9999999999'', ''12kB'']],
      constraints = []\<rparr>"

text \<open>A table whose only value is a command line with a zero byte between its words.\<close>

definition cmdlines :: content where
  "cmdlines =
     \<lparr>name = ''cmdlines'', types = [''TEXT''], column_names = [''cmdline''], n = 1,
      columns = [''cmdline'' \<mapsto> [[CHR ''l'', CHR ''s'', CHR 0x00, CHR ''-'', CHR ''l'']]],
      constraints = []\<rparr>"

text \<open>
  The same table after a negotiation that accepted one equality constraint on \<open>pid\<close>, and
  a plugin that generates two rows when the request carries the literal \<open>7\<close> for \<open>pid\<close>:
  the first row has an undeclared key and lacks two declared ones, the second lacks two
  declared ones.
\<close>

definition pid_constrained :: content where
  "pid_constrained = processes\<lparr>constraints := [(''pid'', Constraint_of 2)]\<rparr>"

definition two_rows :: "Row list" where
  "two_rows = [[''pid'' \<mapsto> ''7'', ''uid'' \<mapsto> ''0''], [''name'' \<mapsto> ''sh'']]"

definition by_pid :: "QueryContext \<Rightarrow> Row list" where
  "by_pid q = (if map expr (cl_constraints (qc_at q ''pid'')) = [''7''] then two_rows else [])"

text \<open>
  Candidates as the engine may offer them: two usable equality terms (on \<open>pid\<close> and on
  \<open>name\<close>) between two terms it marks not usable; a single usable term on each of the
  two columns; and a usable term on the rowid pseudo-column, whose index is \<open>-1\<close>.
\<close>

definition offered :: sqlite3_index_info where
  "offered =
     \<lparr>aConstraint =
        [\<lparr>iColumn = 1, op = 65, usable = False\<rparr>, \<lparr>iColumn = 0, op = 2, usable = True\<rparr>,
         \<lparr>iColumn = 2, op = 4, usable = False\<rparr>, \<lparr>iColumn = 1, op = 2, usable = True\<rparr>],
      aConstraintUsage = [0, 0, 0, 0]\<rparr>"

definition on_pid :: sqlite3_index_info where
  "on_pid = \<lparr>aConstraint = [\<lparr>iColumn = 0, op = 2, usable = True\<rparr>], aConstraintUsage = [0]\<rparr>"

definition on_name :: sqlite3_index_info where
  "on_name = \<lparr>aConstraint = [\<lparr>iColumn = 1, op = 2, usable = True\<rparr>], aConstraintUsage = [0]\<rparr>"

definition on_rowid :: sqlite3_index_info where
  "on_rowid = \<lparr>aConstraint = [\<lparr>iColumn = - 1, op = 2, usable = True\<rparr>], aConstraintUsage = [0]\<rparr>"

text \<open>The adapter content as \<open>xCreate\<close> builds it for the process table.\<close>

definition created :: content where
  "created = new_T ''processes'' [''INTEGER'', ''TEXT'', ''BIGINT''] [''pid'', ''name'', ''rss''] 0"

section \<open>Column reads\<close>

lemmas lexical_cast_defs =
  lexical_cast_int_def lexical_cast_long_long_def lexical_cast_def parse_signed_def
  parse_unsigned_def is_digit_def digit_value_def

lemma to_size_t_nonneg: "0 \<le> x \<Longrightarrow> is_int x \<Longrightarrow> to_size_t x = nat x"
  by (simp add: to_size_t_def INT_MAX_def is_int_def)

lemma touch_present: "k < length (vec_at m nm) \<Longrightarrow> touch m nm = m"
  by (cases "m nm") (simp_all add: vec_at_def touch_def)

lemma xColumn_col_error:
  assumes "int (length (column_names c)) \<le> col" "is_int col"
  shows "xColumn c cur col = Inr (SQLITE_ERROR, c, None, [])"
proof -
  have "0 \<le> col" using assms(1) by linarith
  then have "to_size_t col = nat col" using assms(2) by (rule to_size_t_nonneg)
  then have "length (column_names c) \<le> to_size_t col" using assms(1) by linarith
  then show ?thesis by (simp add: xColumn_def)
qed

lemma xColumn_row_error:
  assumes "length (column_names c) \<le> length (types c)"
    and "0 \<le> col" "col < int (length (column_names c))" "is_int col"
    and "is_int (row cur)"
    and "int (length (vec_at (columns c) (column_names c ! nat col))) \<le> row cur"
  shows "xColumn c cur col =
    Inr (SQLITE_ERROR, c\<lparr>columns := touch (columns c) (column_names c ! nat col)\<rparr>, None, [])"
proof -
  have col: "to_size_t col = nat col" using assms(2,4) by (rule to_size_t_nonneg)
  have "0 \<le> row cur" using assms(6) by linarith
  then have rw: "to_size_t (row cur) = nat (row cur)" using assms(5) by (rule to_size_t_nonneg)
  have "nat col < length (column_names c)" using assms(2,3) by linarith
  moreover have "length (vec_at (columns c) (column_names c ! nat col)) \<le> nat (row cur)"
    using assms(6) by linarith
  ultimately show ?thesis using assms(1) by (simp add: xColumn_def col rw Let_def)
qed

lemma xColumn_read:
  assumes "length (column_names c) \<le> length (types c)"
    and "0 \<le> col" "col < int (length (column_names c))" "is_int col"
    and "0 \<le> row cur" "is_int (row cur)"
    and "row cur < int (length (vec_at (columns c) (column_names c ! nat col)))"
  shows "xColumn c cur col =
    Inr (SQLITE_OK, c,
      coerce (column_names c ! nat col) (types c ! nat col)
        (vec_at (columns c) (column_names c ! nat col) ! nat (row cur)))"
proof -
  have col: "to_size_t col = nat col" using assms(2,4) by (rule to_size_t_nonneg)
  have rw: "to_size_t (row cur) = nat (row cur)" using assms(5,6) by (rule to_size_t_nonneg)
  have c1: "nat col < length (column_names c)" using assms(2,3) by linarith
  have r1: "nat (row cur) < length (vec_at (columns c) (column_names c ! nat col))"
    using assms(5,7) by linarith
  have "touch (columns c) (column_names c ! nat col) = columns c"
    using r1 by (rule touch_present)
  then show ?thesis using assms(1) c1 r1 by (simp add: xColumn_def col rw Let_def)
qed

text \<open>
  C7. For every declared type: a column read whose column index is at or past the
  schema's column count returns the error code and sets no result; a read of a declared
  column whose cursor position is at or past the number of values buffered for that
  column returns the error code and sets no result; any other read (index and position
  inside their ranges) returns what the coercion of the buffered value gives. The index
  and the position are \<open>int\<close> values; the schema has a type for every column.
\<close>

theorem xColumn_bounds_checked:
  assumes "length (column_names c) \<le> length (types c)" and "is_int col" and "is_int (row cur)"
  shows "(int (length (column_names c)) \<le> col \<longrightarrow>
            xColumn c cur col = Inr (SQLITE_ERROR, c, None, [])) \<and>
         (0 \<le> col \<and> col < int (length (column_names c)) \<and>
          int (length (vec_at (columns c) (column_names c ! nat col))) \<le> row cur \<longrightarrow>
            xColumn c cur col =
              Inr (SQLITE_ERROR, c\<lparr>columns := touch (columns c) (column_names c ! nat col)\<rparr>,
                   None, [])) \<and>
         (0 \<le> col \<and> col < int (length (column_names c)) \<and> 0 \<le> row cur \<and>
          row cur < int (length (vec_at (columns c) (column_names c ! nat col))) \<longrightarrow>
            xColumn c cur col =
              Inr (SQLITE_OK, c,
                coerce (column_names c ! nat col) (types c ! nat col)
                  (vec_at (columns c) (column_names c ! nat col) ! nat (row cur))))"
  using assms xColumn_col_error [of c col cur] xColumn_row_error [of c col cur]
    xColumn_read [of c col cur]
  by blast

lemma c_str_id: "CHR 0x00 \<notin> set s \<Longrightarrow> c_str s = s"
  by (auto simp: c_str_def)

text \<open>
  C3, as the code has it. A column read inside the bounds returns \<open>SQLITE_OK\<close> whatever
  the buffered string is. With declared type \<open>TEXT\<close> the result is the string up to its
  first zero byte: the string itself when it holds no zero byte, the empty string
  included. With declared type \<open>INTEGER\<close> (or \<open>BIGINT\<close>) the result is the integer the
  strict 32-bit (64-bit) parse gives when it succeeds; when it fails the result is
  \<open>-1\<close> and exactly one warning is logged, made of the column name and the raw value.
  \<open>42\<close> parses to 42 as a 32-bit integer, \<open>abc\<close> does not parse, and \<open>9999999999\<close>
  parses to that value as a 64-bit integer while it does not fit 32 bits.
\<close>

theorem xColumn_coercion:
  assumes "length (column_names c) \<le> length (types c)"
    and "0 \<le> col" "col < int (length (column_names c))" "is_int col"
    and "0 \<le> row cur" "is_int (row cur)"
    and "row cur < int (length (vec_at (columns c) (column_names c ! nat col)))"
    and "nm = column_names c ! nat col"
    and "v = vec_at (columns c) nm ! nat (row cur)"
  shows "(types c ! nat col = ''TEXT'' \<longrightarrow>
            xColumn c cur col = Inr (SQLITE_OK, c, Some (ResultText (c_str v)), []) \<and>
            (CHR 0x00 \<notin> set v \<longrightarrow> c_str v = v)) \<and>
         (types c ! nat col = ''INTEGER'' \<longrightarrow>
            xColumn c cur col =
              (case lexical_cast_int v of
                 Some i \<Rightarrow> Inr (SQLITE_OK, c, Some (ResultInt i), [])
               | None \<Rightarrow>
                   Inr (SQLITE_OK, c, Some (ResultInt (- 1)),
                        [''Error casting '' @ nm @ '' ('' @ v @ '') to INTEGER'']))) \<and>
         (types c ! nat col = ''BIGINT'' \<longrightarrow>
            xColumn c cur col =
              (case lexical_cast_long_long v of
                 Some i \<Rightarrow> Inr (SQLITE_OK, c, Some (ResultInt64 i), [])
               | None \<Rightarrow>
                   Inr (SQLITE_OK, c, Some (ResultInt64 (- 1)),
                        [''Error casting '' @ nm @ '' ('' @ v @ '') to BIGINT'']))) \<and>
         lexical_cast_int ''42'' = Some 42 \<and>
         lexical_cast_int ''abc'' = None \<and>
         lexical_cast_int ''9999999999'' = None \<and>
         lexical_cast_long_long ''9999999999'' = Some 9999999999"
proof -
  have rd: "xColumn c cur col = Inr (SQLITE_OK, c, coerce nm (types c ! nat col) v)"
    using xColumn_read [OF assms(1-7)] assms(8,9) by simp
  have "types c ! nat col = ''TEXT'' \<longrightarrow>
      xColumn c cur col = Inr (SQLITE_OK, c, Some (ResultText (c_str v)), []) \<and>
      (CHR 0x00 \<notin> set v \<longrightarrow> c_str v = v)"
    by (simp add: rd coerce_def c_str_id)
  moreover have "types c ! nat col = ''INTEGER'' \<longrightarrow>
      xColumn c cur col =
        (case lexical_cast_int v of
           Some i \<Rightarrow> Inr (SQLITE_OK, c, Some (ResultInt i), [])
         | None \<Rightarrow>
             Inr (SQLITE_OK, c, Some (ResultInt (- 1)),
                  [''Error casting '' @ nm @ '' ('' @ v @ '') to INTEGER'']))"
    by (simp add: rd coerce_def split: option.split)
  moreover have "types c ! nat col = ''BIGINT'' \<longrightarrow>
      xColumn c cur col =
        (case lexical_cast_long_long v of
           Some i \<Rightarrow> Inr (SQLITE_OK, c, Some (ResultInt64 i), [])
         | None \<Rightarrow>
             Inr (SQLITE_OK, c, Some (ResultInt64 (- 1)),
                  [''Error casting '' @ nm @ '' ('' @ v @ '') to BIGINT'']))"
    by (simp add: rd coerce_def split: option.split)
  moreover have "lexical_cast_int ''42'' = Some 42"
    by (simp add: lexical_cast_defs)
  moreover have "lexical_cast_int ''abc'' = None"
    by (simp add: lexical_cast_defs)
  moreover have "lexical_cast_int ''9999999999'' = None"
    by (simp add: lexical_cast_defs)
  moreover have "lexical_cast_long_long ''9999999999'' = Some 9999999999"
    by (simp add: lexical_cast_defs)
  ultimately show ?thesis by blast
qed

lemma processes_names: "column_names processes = [''pid'', ''name'', ''rss'']"
  by (simp add: processes_def)

lemma processes_types: "types processes = [''INTEGER'', ''TEXT'', ''BIGINT'']"
  by (simp add: processes_def)

lemma processes_columns:
  "vec_at (columns processes) ''pid'' = [''42'', ''abc'']"
  "vec_at (columns processes) ''name'' = [''init'', []]"
  "vec_at (columns processes) ''rss'' = [''9999999999'', ''12kB'']"
  by (simp_all add: processes_def vec_at_def)

lemma small_ints: "is_int 0" "is_int 1" "is_int 2" "is_int 3"
  by (simp_all add: is_int_def INT_MAX_def)

lemma processes_touch: "processes\<lparr>columns := touch (columns processes) ''name''\<rparr> = processes"
  by (simp add: processes_def touch_def)

lemmas processes_simps = processes_names processes_types processes_columns small_ints

theorem xColumn_bounds_checked_witness:
  "xColumn processes \<lparr>row = 0\<rparr> 3 = Inr (SQLITE_ERROR, processes, None, []) \<and>
   xColumn processes \<lparr>row = 2\<rparr> 1 = Inr (SQLITE_ERROR, processes, None, []) \<and>
   xColumn processes \<lparr>row = 0\<rparr> 1 = Inr (SQLITE_OK, processes, Some (ResultText ''init''), [])"
proof -
  have "xColumn processes \<lparr>row = 0\<rparr> 3 = Inr (SQLITE_ERROR, processes, None, [])"
    using xColumn_bounds_checked [of processes 3 "\<lparr>row = 0\<rparr>"]
    by (simp add: processes_simps)
  moreover have "xColumn processes \<lparr>row = 2\<rparr> 1 = Inr (SQLITE_ERROR, processes, None, [])"
    using xColumn_bounds_checked [of processes 1 "\<lparr>row = 2\<rparr>"]
    by (simp add: processes_simps processes_touch)
  moreover have "xColumn processes \<lparr>row = 0\<rparr> 1 =
      Inr (SQLITE_OK, processes, Some (ResultText ''init''), [])"
    using xColumn_bounds_checked [of processes 1 "\<lparr>row = 0\<rparr>"]
    by (simp add: processes_simps coerce_def c_str_def)
  ultimately show ?thesis by simp
qed

theorem xColumn_coercion_witness:
  "xColumn processes \<lparr>row = 0\<rparr> 0 = Inr (SQLITE_OK, processes, Some (ResultInt 42), []) \<and>
   xColumn processes \<lparr>row = 1\<rparr> 0 =
     Inr (SQLITE_OK, processes, Some (ResultInt (- 1)), [''Error casting pid (abc) to INTEGER'']) \<and>
   xColumn processes \<lparr>row = 1\<rparr> 1 = Inr (SQLITE_OK, processes, Some (ResultText []), []) \<and>
   xColumn processes \<lparr>row = 0\<rparr> 2 =
     Inr (SQLITE_OK, processes, Some (ResultInt64 9999999999), []) \<and>
   xColumn processes \<lparr>row = 1\<rparr> 2 =
     Inr (SQLITE_OK, processes, Some (ResultInt64 (- 1)), [''Error casting rss (12kB) to BIGINT''])"
proof -
  have sch: "length (column_names processes) \<le> length (types processes)"
    by (simp add: processes_simps)
  have ty: "types processes ! nat 0 = ''INTEGER''" "types processes ! nat 1 = ''TEXT''"
    "types processes ! nat 2 = ''BIGINT''"
    by (simp_all add: processes_simps)
  have parse: "lexical_cast_int ''42'' = Some 42" "lexical_cast_int ''abc'' = None"
    "lexical_cast_long_long ''9999999999'' = Some 9999999999"
    "lexical_cast_long_long ''12kB'' = None"
    by (simp_all add: lexical_cast_defs)
  have p00: "(0::int) \<le> 0" "0 < int (length (column_names processes))" "is_int 0"
    "0 \<le> row \<lparr>row = 0\<rparr>" "is_int (row \<lparr>row = 0\<rparr>)"
    "row \<lparr>row = 0\<rparr> < int (length (vec_at (columns processes) (column_names processes ! nat 0)))"
    "''pid'' = column_names processes ! nat 0"
    "''42'' = vec_at (columns processes) ''pid'' ! nat (row \<lparr>row = 0\<rparr>)"
    by (simp_all add: processes_simps)
  have p10: "(0::int) \<le> 0" "0 < int (length (column_names processes))" "is_int 0"
    "0 \<le> row \<lparr>row = 1\<rparr>" "is_int (row \<lparr>row = 1\<rparr>)"
    "row \<lparr>row = 1\<rparr> < int (length (vec_at (columns processes) (column_names processes ! nat 0)))"
    "''pid'' = column_names processes ! nat 0"
    "''abc'' = vec_at (columns processes) ''pid'' ! nat (row \<lparr>row = 1\<rparr>)"
    by (simp_all add: processes_simps)
  have p11: "(0::int) \<le> 1" "1 < int (length (column_names processes))" "is_int 1"
    "0 \<le> row \<lparr>row = 1\<rparr>" "is_int (row \<lparr>row = 1\<rparr>)"
    "row \<lparr>row = 1\<rparr> < int (length (vec_at (columns processes) (column_names processes ! nat 1)))"
    "''name'' = column_names processes ! nat 1"
    "[] = vec_at (columns processes) ''name'' ! nat (row \<lparr>row = 1\<rparr>)"
    by (simp_all add: processes_simps)
  have p02: "(0::int) \<le> 2" "2 < int (length (column_names processes))" "is_int 2"
    "0 \<le> row \<lparr>row = 0\<rparr>" "is_int (row \<lparr>row = 0\<rparr>)"
    "row \<lparr>row = 0\<rparr> < int (length (vec_at (columns processes) (column_names processes ! nat 2)))"
    "''rss'' = column_names processes ! nat 2"
    "''9999999999'' = vec_at (columns processes) ''rss'' ! nat (row \<lparr>row = 0\<rparr>)"
    by (simp_all add: processes_simps)
  have p12: "(0::int) \<le> 2" "2 < int (length (column_names processes))" "is_int 2"
    "0 \<le> row \<lparr>row = 1\<rparr>" "is_int (row \<lparr>row = 1\<rparr>)"
    "row \<lparr>row = 1\<rparr> < int (length (vec_at (columns processes) (column_names processes ! nat 2)))"
    "''rss'' = column_names processes ! nat 2"
    "''12kB'' = vec_at (columns processes) ''rss'' ! nat (row \<lparr>row = 1\<rparr>)"
    by (simp_all add: processes_simps)
  have "xColumn processes \<lparr>row = 0\<rparr> 0 =
      (case lexical_cast_int ''42'' of
         Some i \<Rightarrow> Inr (SQLITE_OK, processes, Some (ResultInt i), [])
       | None \<Rightarrow> Inr (SQLITE_OK, processes, Some (ResultInt (- 1)),
           [''Error casting '' @ ''pid'' @ '' ('' @ ''42'' @ '') to INTEGER'']))"
    using xColumn_coercion [OF sch p00] ty by blast
  then have r00: "xColumn processes \<lparr>row = 0\<rparr> 0 =
      Inr (SQLITE_OK, processes, Some (ResultInt 42), [])"
    by (simp add: parse)
  have "xColumn processes \<lparr>row = 1\<rparr> 0 =
      (case lexical_cast_int ''abc'' of
         Some i \<Rightarrow> Inr (SQLITE_OK, processes, Some (ResultInt i), [])
       | None \<Rightarrow> Inr (SQLITE_OK, processes, Some (ResultInt (- 1)),
           [''Error casting '' @ ''pid'' @ '' ('' @ ''abc'' @ '') to INTEGER'']))"
    using xColumn_coercion [OF sch p10] ty by blast
  then have r10: "xColumn processes \<lparr>row = 1\<rparr> 0 =
      Inr (SQLITE_OK, processes, Some (ResultInt (- 1)), [''Error casting pid (abc) to INTEGER''])"
    by (simp add: parse)
  have "xColumn processes \<lparr>row = 1\<rparr> 1 =
      Inr (SQLITE_OK, processes, Some (ResultText (c_str [])), [])"
    using xColumn_coercion [OF sch p11] ty by blast
  then have r11: "xColumn processes \<lparr>row = 1\<rparr> 1 =
      Inr (SQLITE_OK, processes, Some (ResultText []), [])"
    by (simp add: c_str_def)
  have "xColumn processes \<lparr>row = 0\<rparr> 2 =
      (case lexical_cast_long_long ''9999999999'' of
         Some i \<Rightarrow> Inr (SQLITE_OK, processes, Some (ResultInt64 i), [])
       | None \<Rightarrow> Inr (SQLITE_OK, processes, Some (ResultInt64 (- 1)),
           [''Error casting '' @ ''rss'' @ '' ('' @ ''9999999999'' @ '') to BIGINT'']))"
    using xColumn_coercion [OF sch p02] ty by blast
  then have r02: "xColumn processes \<lparr>row = 0\<rparr> 2 =
      Inr (SQLITE_OK, processes, Some (ResultInt64 9999999999), [])"
    by (simp add: parse)
  have "xColumn processes \<lparr>row = 1\<rparr> 2 =
      (case lexical_cast_long_long ''12kB'' of
         Some i \<Rightarrow> Inr (SQLITE_OK, processes, Some (ResultInt64 i), [])
       | None \<Rightarrow> Inr (SQLITE_OK, processes, Some (ResultInt64 (- 1)),
           [''Error casting '' @ ''rss'' @ '' ('' @ ''12kB'' @ '') to BIGINT'']))"
    using xColumn_coercion [OF sch p12] ty by blast
  then have r12: "xColumn processes \<lparr>row = 1\<rparr> 2 =
      Inr (SQLITE_OK, processes, Some (ResultInt64 (- 1)), [''Error casting rss (12kB) to BIGINT''])"
    by (simp add: parse)
  from r00 r10 r11 r02 r12 show ?thesis by blast
qed


text \<open>
  C3, as the spec has it, fails on a text with a zero byte inside: the column holds the
  five bytes \<open>ls\<close>, zero, \<open>-l\<close>, and the read hands the engine \<open>ls\<close>.
\<close>

theorem xColumn_text_not_verbatim:
  "types cmdlines ! 0 = ''TEXT'' \<and>
   vec_at (columns cmdlines) ''cmdline'' ! 0 = [CHR ''l'', CHR ''s'', CHR 0x00, CHR ''-'', CHR ''l''] \<and>
   xColumn cmdlines \<lparr>row = 0\<rparr> 0 = Inr (SQLITE_OK, cmdlines, Some (ResultText ''ls''), []) \<and>
   xColumn cmdlines \<lparr>row = 0\<rparr> 0 \<noteq>
     Inr (SQLITE_OK, cmdlines,
          Some (ResultText [CHR ''l'', CHR ''s'', CHR 0x00, CHR ''-'', CHR ''l'']), [])"
proof -
  have nms: "column_names cmdlines = [''cmdline'']" and tys: "types cmdlines = [''TEXT'']"
    and col: "vec_at (columns cmdlines) ''cmdline'' =
      [[CHR ''l'', CHR ''s'', CHR 0x00, CHR ''-'', CHR ''l'']]"
    by (simp_all add: cmdlines_def vec_at_def)
  have "xColumn cmdlines \<lparr>row = 0\<rparr> 0 =
      Inr (SQLITE_OK, cmdlines,
        coerce (column_names cmdlines ! nat 0) (types cmdlines ! nat 0)
          (vec_at (columns cmdlines) (column_names cmdlines ! nat 0) ! nat (row \<lparr>row = 0\<rparr>)))"
    by (rule xColumn_read) (simp_all add: nms tys col small_ints)
  then have rd: "xColumn cmdlines \<lparr>row = 0\<rparr> 0 =
      Inr (SQLITE_OK, cmdlines, Some (ResultText ''ls''), [])"
    by (simp add: nms tys col coerce_def c_str_def)
  show ?thesis
    by (simp add: rd tys col)
qed

section \<open>Filtering and scanning\<close>

lemma reset_columns_eq:
  "length nms \<le> length ts \<Longrightarrow>
   reset_columns nms ts (cols, req) = Inr (cleared nms cols, with_affinities nms ts req)"
proof (induction nms ts "(cols, req)" arbitrary: cols req rule: reset_columns.induct)
  case (1 ts)
  then show ?case by (simp add: cleared_def)
next
  case (2 nm nms)
  then show ?case by simp
next
  case (3 nm nms t ts cols req)
  have "cleared nms (cols(nm \<mapsto> [])) = cleared (nm # nms) cols"
    by (auto simp: cleared_def)
  with 3 show ?case by simp
qed

lemma reset_columns_short:
  "length ts < length nms \<Longrightarrow> reset_columns nms ts acc = Inl TypesOutOfRange"
  by (induction nms ts acc rule: reset_columns.induct) simp_all

lemma bind_literals_eq:
  "length lits \<le> length cs \<Longrightarrow>
   bind_literals (map Some lits) cs req =
     Inr (bound lits cs, add_all (take (length lits) (bound lits cs)) req)"
proof (induction lits arbitrary: cs req)
  case Nil
  then show ?case by (simp add: bound_def)
next
  case (Cons a as)
  then obtain nm k cs' where cs: "cs = (nm, k) # cs'"
    by (cases cs) auto
  have "length as \<le> length cs'" using Cons.prems cs by simp
  from Cons.IH [OF this, of "req(nm \<mapsto> add (qc_at req nm) (k\<lparr>expr := c_str a\<rparr>))"]
  show ?case by (simp add: cs bound_def fun_upd_def)
qed

lemma bind_literals_short:
  "length cs < length lits \<Longrightarrow> bind_literals (map Some lits) cs req = Inl ConstraintsOutOfRange"
proof (induction lits arbitrary: cs req)
  case Nil
  then show ?case by simp
next
  case (Cons a as)
  show ?case
  proof (cases cs)
    case Nil
    then show ?thesis by simp
  next
    case (Cons p cs')
    then have "length cs' < length as" using Cons.prems by simp
    then show ?thesis using Cons.IH Cons by (cases p) simp
  qed
qed

lemma bind_literals_null:
  "None \<in> set argv \<Longrightarrow> length argv \<le> length cs \<Longrightarrow>
   bind_literals argv cs req = Inl NullArgument"
proof (induction argv arbitrary: cs req)
  case Nil
  then show ?case by simp
next
  case (Cons a as)
  then obtain nm k cs' where cs: "cs = (nm, k) # cs'"
    by (cases cs) auto
  show ?case
  proof (cases a)
    case None
    then show ?thesis by (simp add: cs)
  next
    case (Some e)
    then have "None \<in> set as" "length as \<le> length cs'"
      using Cons.prems cs by simp_all
    from Cons.IH [OF this, of "req(nm \<mapsto> add (qc_at req nm) (k\<lparr>expr := c_str e\<rparr>))"]
    show ?thesis by (simp add: cs Some fun_upd_def)
  qed
qed

lemma bound_bound: "bound lits (bound lits cs) = bound lits cs"
proof (induction lits arbitrary: cs)
  case Nil
  then show ?case by (simp add: bound_def)
next
  case (Cons a as)
  show ?case
  proof (cases cs)
    case Nil
    then show ?thesis by (simp add: bound_def)
  next
    case (Cons p ps)
    with Cons.IH [of ps] show ?thesis by (simp add: bound_def)
  qed
qed

lemma length_bound: "length (bound lits cs) = length cs"
  by (simp add: bound_def)

lemma qc_at_upd: "qc_at (req(k' \<mapsto> cl)) k = (if k = k' then cl else qc_at req k)"
  by (simp add: qc_at_def)

lemma add_all_constraints:
  "cl_constraints (qc_at (add_all ps req) k) =
   cl_constraints (qc_at req k) @ map snd (filter (\<lambda>p. fst p = k) ps)"
proof (induction ps arbitrary: req)
  case Nil
  then show ?case by simp
next
  case (Cons p ps)
  show ?case
    unfolding add_all.simps Cons.IH qc_at_upd by (simp add: add_def)
qed

lemma add_all_affinity: "affinity (qc_at (add_all ps req) k) = affinity (qc_at req k)"
proof (induction ps arbitrary: req)
  case Nil
  then show ?case by simp
next
  case (Cons p ps)
  show ?case
    unfolding add_all.simps Cons.IH qc_at_upd by (simp add: add_def)
qed

lemma with_affinities_constraints:
  "cl_constraints (qc_at (with_affinities nms ts req) k) = cl_constraints (qc_at req k)"
proof (induction nms arbitrary: ts req)
  case Nil
  then show ?case by simp
next
  case (Cons nm nms)
  show ?case
  proof (cases ts)
    case Nil
    then show ?thesis by simp
  next
    case (Cons t ts')
    show ?thesis
      unfolding Cons with_affinities.simps Cons.IH qc_at_upd by simp
  qed
qed

lemma push_row_other: "k \<notin> set names \<Longrightarrow> push_row r names cols k = cols k"
  by (induction names arbitrary: cols) auto

lemma push_row_distinct:
  "distinct names \<Longrightarrow> k \<in> set names \<Longrightarrow>
   push_row r names cols k = Some (vec_at cols k @ [row_at r k])"
proof (induction names arbitrary: cols)
  case Nil
  then show ?case by simp
next
  case (Cons nm names)
  show ?case
  proof (cases "k = nm")
    case True
    then have "k \<notin> set names" using Cons.prems by simp
    then show ?thesis using True by (simp add: push_row_other)
  next
    case False
    then show ?thesis using Cons by (simp add: vec_at_def)
  qed
qed

lemma push_row_buffered:
  "distinct names \<Longrightarrow> push_row r names cols = buffered names [r] cols"
  by (rule ext) (simp add: buffered_def push_row_other push_row_distinct)

lemma buffered_Cons:
  "buffered names rs (buffered names [r] cols) = buffered names (r # rs) cols"
  by (rule ext) (simp add: buffered_def vec_at_def)

lemma buffered_Nil: "set names \<subseteq> dom cols \<Longrightarrow> buffered names [] cols = cols"
  by (rule ext) (auto simp: buffered_def vec_at_def split: option.splits)

lemma dom_buffered: "set names \<subseteq> dom (buffered names rs cols)"
  by (auto simp: buffered_def)

lemma buffer_rows_eq:
  "distinct names \<Longrightarrow> set names \<subseteq> dom cols \<Longrightarrow> cnt + int (length rs) \<le> INT_MAX \<Longrightarrow>
   buffer_rows rs names (cols, cnt) = Inr (buffered names rs cols, cnt + int (length rs))"
proof (induction rs arbitrary: cols cnt)
  case Nil
  then show ?case by (simp add: buffered_Nil)
next
  case (Cons r rs)
  have "\<not> INT_MAX \<le> cnt" using Cons.prems(3) by simp
  moreover have "(cnt + 1) + int (length rs) \<le> INT_MAX" using Cons.prems(3) by simp
  moreover have "push_row r names cols = buffered names [r] cols"
    using Cons.prems(1) by (rule push_row_buffered)
  ultimately show ?case
    using Cons.IH [OF Cons.prems(1) dom_buffered, of "cnt + 1" "[r]" cols]
    by (simp add: buffered_Cons)
qed

lemma buffer_rows_overflow:
  "INT_MAX < cnt + int (length rs) \<Longrightarrow> cnt \<le> INT_MAX \<Longrightarrow>
   buffer_rows rs names (cols, cnt) = Inl SignedOverflow"
proof (induction rs arbitrary: cols cnt)
  case Nil
  then show ?case by simp
next
  case (Cons r rs)
  then show ?case by (cases "INT_MAX \<le> cnt") simp_all
qed

lemma xFilter_prepare_eq:
  assumes "length (column_names c) \<le> length (types c)" and "length lits \<le> length (constraints c)"
  shows "xFilter_prepare c (map Some lits) =
    Inr (cleared (column_names c) (columns c), bound lits (constraints c),
         add_all (take (length lits) (bound lits (constraints c)))
           (with_affinities (column_names c) (types c) Map.empty))"
  using assms by (simp add: xFilter_prepare_def reset_columns_eq bind_literals_eq)

lemma xFilter_request_eq:
  assumes "length (column_names c) \<le> length (types c)" and "length lits \<le> length (constraints c)"
  shows "xFilter_request c (map Some lits) =
    add_all (take (length lits) (bound lits (constraints c)))
      (with_affinities (column_names c) (types c) Map.empty)"
  using assms by (simp add: xFilter_request_def xFilter_prepare_eq)

lemma request_constraints_take:
  assumes "length (column_names c) \<le> length (types c)" and "length lits \<le> length (constraints c)"
  shows "cl_constraints (qc_at (xFilter_request c (map Some lits)) col) =
    map snd (filter (\<lambda>p. fst p = col) (take (length lits) (bound lits (constraints c))))"
proof -
  have "cl_constraints (qc_at Map.empty col) = []"
    by (simp add: qc_at_def ConstraintList_default_def)
  then show ?thesis
    using assms
    by (simp add: xFilter_request_eq add_all_constraints with_affinities_constraints)
qed

lemma buffered_cleared:
  "buffered names rs (cleared names cols) =
   (\<lambda>k. if k \<in> set names then Some (map (\<lambda>r. row_at r k) rs) else cols k)"
  by (rule ext) (simp add: buffered_def cleared_def vec_at_def)

lemma xFilter_eq:
  assumes "length (column_names c) \<le> length (types c)" and "length lits \<le> length (constraints c)"
    and "distinct (column_names c)"
    and "int (length (generate (xFilter_request c (map Some lits)))) \<le> INT_MAX"
  shows "xFilter c cur generate (map Some lits) =
    Inr (SQLITE_OK,
         c\<lparr>n := int (length (generate (xFilter_request c (map Some lits)))),
           columns := (\<lambda>k. if k \<in> set (column_names c)
                           then Some (map (\<lambda>r. row_at r k)
                                  (generate (xFilter_request c (map Some lits))))
                           else columns c k),
           constraints := bound lits (constraints c)\<rparr>,
         cur\<lparr>row := 0\<rparr>)"
proof -
  let ?req = "xFilter_request c (map Some lits)"
  have req: "add_all (take (length lits) (bound lits (constraints c)))
      (with_affinities (column_names c) (types c) Map.empty) = ?req"
    using assms(1,2) by (simp add: xFilter_request_eq)
  have "buffer_rows (generate ?req) (column_names c) (cleared (column_names c) (columns c), 0) =
      Inr (buffered (column_names c) (generate ?req) (cleared (column_names c) (columns c)),
           0 + int (length (generate ?req)))"
    using assms(3,4) by (intro buffer_rows_eq) (auto simp: cleared_def)
  then show ?thesis
    using assms(1,2) by (simp add: xFilter_def xFilter_prepare_eq req buffered_cleared)
qed

lemma row_at_restrict: "k \<in> A \<Longrightarrow> row_at (r |` A) k = row_at r k"
  by (simp add: row_at_def)

text \<open>
  C9. After a filter call on a schema with distinct column names (and a type per column,
  arguments that are texts and no more than the constraints, a row count that fits
  \<open>int\<close>), every declared column holds exactly as many values as the row count says; the
  value stored for row \<open>i\<close> is the generated row's value under the column name, or the
  empty string when the row has none; buffers under names that are not declared are
  untouched, and removing the undeclared keys from the generated rows changes nothing.
\<close>

theorem xFilter_rectangular:
  assumes "length (column_names c) \<le> length (types c)"
    and "length lits \<le> length (constraints c)"
    and "distinct (column_names c)"
    and "R = generate (xFilter_request c (map Some lits))"
    and "int (length R) \<le> INT_MAX"
  shows "\<exists>c1. xFilter c cur generate (map Some lits) = Inr (SQLITE_OK, c1, cur\<lparr>row := 0\<rparr>) \<and>
           n c1 = int (length R) \<and>
           (\<forall>k \<in> set (column_names c). length (vec_at (columns c1) k) = length R) \<and>
           (\<forall>k \<in> set (column_names c). \<forall>i < length R.
              vec_at (columns c1) k ! i = (case (R ! i) k of None \<Rightarrow> [] | Some v \<Rightarrow> v)) \<and>
           (\<forall>k. k \<notin> set (column_names c) \<longrightarrow> columns c1 k = columns c k) \<and>
           xFilter c cur (\<lambda>q. map (\<lambda>r. r |` set (column_names c)) (generate q)) (map Some lits) =
             Inr (SQLITE_OK, c1, cur\<lparr>row := 0\<rparr>)"
proof -
  let ?names = "column_names c"
  let ?c1 = "c\<lparr>n := int (length R),
               columns := (\<lambda>k. if k \<in> set ?names then Some (map (\<lambda>r. row_at r k) R) else columns c k),
               constraints := bound lits (constraints c)\<rparr>"
  let ?gen' = "\<lambda>q. map (\<lambda>r. r |` set ?names) (generate q)"
  have R: "generate (xFilter_request c (map Some lits)) = R"
    using assms(4) by simp
  have fits: "int (length (generate (xFilter_request c (map Some lits)))) \<le> INT_MAX"
    using assms(5) by (simp add: R)
  have fits': "int (length (?gen' (xFilter_request c (map Some lits)))) \<le> INT_MAX"
    using assms(5) by (simp add: R)
  have run: "xFilter c cur generate (map Some lits) = Inr (SQLITE_OK, ?c1, cur\<lparr>row := 0\<rparr>)"
    using xFilter_eq [where generate = generate and cur = cur, OF assms(1,2,3) fits]
    by (simp add: R cong: if_cong)
  have len: "\<forall>k \<in> set ?names. length (vec_at (columns ?c1) k) = length R"
    by (simp add: vec_at_def)
  have vals: "\<forall>k \<in> set ?names. \<forall>i < length R.
      vec_at (columns ?c1) k ! i = (case (R ! i) k of None \<Rightarrow> [] | Some v \<Rightarrow> v)"
    by (simp add: vec_at_def row_at_def)
  have other: "\<forall>k. k \<notin> set ?names \<longrightarrow> columns ?c1 k = columns c k"
    by simp
  have same: "\<And>k. k \<in> set ?names \<Longrightarrow>
      map ((\<lambda>r. row_at r k) \<circ> (\<lambda>r. r |` set ?names)) R = map (\<lambda>r. row_at r k) R"
    by (simp add: row_at_restrict)
  have "xFilter c cur ?gen' (map Some lits) = Inr (SQLITE_OK, ?c1, cur\<lparr>row := 0\<rparr>)"
    using xFilter_eq [where generate = ?gen' and cur = cur, OF assms(1,2,3) fits']
    by (simp add: R same cong: if_cong)
  with run len vals other show ?thesis
    by (intro exI [of _ ?c1]) simp
qed
lemma read_row_stable:
  assumes "length (column_names c) \<le> length (types c)"
    and "int (length (column_names c)) \<le> INT_MAX"
    and "0 \<le> row cur" "is_int (row cur)"
    and "\<forall>k \<in> set (column_names c). row cur < int (length (vec_at (columns c) k))"
    and "\<forall>j \<in> set js. j < length (column_names c)"
  shows "read_row c cur (map int js) =
    Inr (c, map (\<lambda>j. (SQLITE_OK,
                     coerce (column_names c ! j) (types c ! j)
                       (vec_at (columns c) (column_names c ! j) ! nat (row cur)))) js)"
  using assms(6)
proof (induction js)
  case Nil
  then show ?case by simp
next
  case (Cons j js)
  have j: "j < length (column_names c)" using Cons.prems by simp
  then have "is_int (int j)" using assms(2) by (simp add: is_int_def INT_MAX_def)
  moreover have "row cur < int (length (vec_at (columns c) (column_names c ! nat (int j))))"
    using assms(5) j by simp
  ultimately have "xColumn c cur (int j) =
      Inr (SQLITE_OK, c,
        coerce (column_names c ! nat (int j)) (types c ! nat (int j))
          (vec_at (columns c) (column_names c ! nat (int j)) ! nat (row cur)))"
    using j assms(1,3,4) by (intro xColumn_read) simp_all
  then have "xColumn c cur (int j) =
      Inr (SQLITE_OK, c,
        coerce (column_names c ! j) (types c ! j)
          (vec_at (columns c) (column_names c ! j) ! nat (row cur)))"
    by simp
  moreover have "read_row c cur (map int js) =
      Inr (c, map (\<lambda>j. (SQLITE_OK,
                     coerce (column_names c ! j) (types c ! j)
                       (vec_at (columns c) (column_names c ! j) ! nat (row cur)))) js)"
    using Cons by simp
  ultimately show ?case
    by (simp add: prod_eq_iff)
qed

lemma scan_rows:
  assumes "length (column_names c) \<le> length (types c)"
    and "int (length (column_names c)) \<le> INT_MAX"
    and "n c \<le> INT_MAX"
    and "\<forall>k \<in> set (column_names c). int (length (vec_at (columns c) k)) = n c"
    and "0 \<le> row cur" "row cur \<le> n c"
  shows "scan c cur =
    Inr (map (\<lambda>i. map (\<lambda>j. (SQLITE_OK,
                              coerce (column_names c ! j) (types c ! j)
                                (vec_at (columns c) (column_names c ! j) ! i)))
                   [0..<length (column_names c)])
             [nat (row cur)..<nat (n c)])"
  using assms(5,6)
proof (induction "nat (n c - row cur)" arbitrary: cur)
  case 0
  then have "row cur = n c" by simp
  then show ?case by (subst scan.simps) (simp add: xEof_def)
next
  case (Suc m)
  then have lt: "row cur < n c" by linarith
  have int_row: "is_int (row cur)"
    using lt Suc.prems(1) assms(3) by (simp add: is_int_def INT_MAX_def)
  have "read_row c cur (map int [0..<length (column_names c)]) =
      Inr (c, map (\<lambda>j. (SQLITE_OK,
                     coerce (column_names c ! j) (types c ! j)
                       (vec_at (columns c) (column_names c ! j) ! nat (row cur))))
                [0..<length (column_names c)])"
    using assms(1,2,4) Suc.prems(1) int_row lt by (intro read_row_stable) simp_all
  moreover have "scan c (xNext cur) =
      Inr (map (\<lambda>i. map (\<lambda>j. (SQLITE_OK,
                              coerce (column_names c ! j) (types c ! j)
                                (vec_at (columns c) (column_names c ! j) ! i)))
                   [0..<length (column_names c)])
             [nat (row (xNext cur))..<nat (n c)])"
    using Suc.hyps(2) Suc.prems lt by (intro Suc.hyps(1)) (simp_all add: xNext_def)
  moreover have "nat (row (xNext cur)) = Suc (nat (row cur))"
    using Suc.prems(1) by (simp add: xNext_def)
  moreover have "[nat (row cur)..<nat (n c)] = nat (row cur) # [Suc (nat (row cur))..<nat (n c)]"
    using lt Suc.prems(1) by (intro upt_conv_Cons) linarith
  moreover have "\<not> xEof c cur" using lt by (simp add: xEof_def)
  ultimately show ?case
    by (subst scan.simps) simp
qed
text \<open>
  C6. A filter call hands the plugin its request with the buffer of every declared
  column emptied; it sets the cursor position to 0 and leaves a row count and declared
  column buffers that are made of the rows this call generated and of nothing else:
  the same call on a content whose row count, buffers and cursor hold anything else gives
  the same row count and the same declared buffers. Filtering again with the same
  arguments, from any cursor position, leaves the content as the first call left it.
  (The schema has distinct names and a type per column, the arguments are texts and no
  more than the constraints, and the row count fits \<open>int\<close>; the plugin's rows are a
  function of the request.)
\<close>

theorem xFilter_refilter:
  assumes "length (column_names c) \<le> length (types c)"
    and "length lits \<le> length (constraints c)"
    and "distinct (column_names c)"
    and "R = generate (xFilter_request c (map Some lits))"
    and "int (length R) \<le> INT_MAX"
  shows "\<exists>c1. xFilter c cur generate (map Some lits) = Inr (SQLITE_OK, c1, cur\<lparr>row := 0\<rparr>) \<and>
           (\<exists>cs. xFilter_prepare c (map Some lits) =
              Inr (\<lambda>k. if k \<in> set (column_names c) then Some [] else columns c k, cs,
                   xFilter_request c (map Some lits))) \<and>
           n c1 = int (length R) \<and>
           (\<forall>k \<in> set (column_names c). columns c1 k = Some (map (\<lambda>r. row_at r k) R)) \<and>
           (\<forall>n0 cols0 cur0. \<exists>c2.
              xFilter (c\<lparr>n := n0, columns := cols0\<rparr>) cur0 generate (map Some lits) =
                Inr (SQLITE_OK, c2, cur0\<lparr>row := 0\<rparr>) \<and>
              n c2 = n c1 \<and> (\<forall>k \<in> set (column_names c). columns c2 k = columns c1 k)) \<and>
           (\<forall>cur'. xFilter c1 cur' generate (map Some lits) = Inr (SQLITE_OK, c1, cur'\<lparr>row := 0\<rparr>))"
proof -
  let ?names = "column_names c"
  let ?buf = "\<lambda>cols k. if k \<in> set ?names then Some (map (\<lambda>r. row_at r k) R) else cols k"
  let ?c1 = "c\<lparr>n := int (length R), columns := ?buf (columns c),
               constraints := bound lits (constraints c)\<rparr>"
  have R: "generate (xFilter_request c (map Some lits)) = R"
    using assms(4) by simp
  have fits: "int (length (generate (xFilter_request c (map Some lits)))) \<le> INT_MAX"
    using assms(5) by (simp add: R)
  have run: "xFilter c cur generate (map Some lits) = Inr (SQLITE_OK, ?c1, cur\<lparr>row := 0\<rparr>)"
    using xFilter_eq [where generate = generate and cur = cur, OF assms(1,2,3) fits]
    by (simp add: R cong: if_cong)
  have prep: "\<exists>cs. xFilter_prepare c (map Some lits) =
      Inr (\<lambda>k. if k \<in> set ?names then Some [] else columns c k, cs,
           xFilter_request c (map Some lits))"
    using assms(1,2) by (simp add: xFilter_prepare_eq xFilter_request_eq cleared_def)
  have independent: "\<exists>c2.
      xFilter (c\<lparr>n := n0, columns := cols0\<rparr>) cur0 generate (map Some lits) =
        Inr (SQLITE_OK, c2, cur0\<lparr>row := 0\<rparr>) \<and>
      n c2 = n ?c1 \<and> (\<forall>k \<in> set ?names. columns c2 k = columns ?c1 k)"
    for n0 cols0 cur0
  proof -
    let ?c0 = "c\<lparr>n := n0, columns := cols0\<rparr>"
    let ?c2 = "?c0\<lparr>n := int (length R), columns := ?buf cols0,
                 constraints := bound lits (constraints c)\<rparr>"
    have R0: "generate (xFilter_request ?c0 (map Some lits)) = R"
      using assms(1,2) by (simp add: xFilter_request_eq R [symmetric])
    have fits0: "int (length (generate (xFilter_request ?c0 (map Some lits)))) \<le> INT_MAX"
      using assms(5) by (simp only: R0)
    have "xFilter ?c0 cur0 generate (map Some lits) = Inr (SQLITE_OK, ?c2, cur0\<lparr>row := 0\<rparr>)"
      using xFilter_eq [where c = ?c0 and generate = generate and cur = cur0 and lits = lits, OF _ _ _ fits0]
        assms(1,2,3)
      by (simp add: R0 cong: if_cong)
    then show ?thesis
      by (intro exI [of _ ?c2]) simp
  qed
  have again: "xFilter ?c1 cur' generate (map Some lits) = Inr (SQLITE_OK, ?c1, cur'\<lparr>row := 0\<rparr>)" for cur'
  proof -
    have len: "length lits \<le> length (constraints ?c1)"
      using assms(2) by (simp add: length_bound)
    have R1: "generate (xFilter_request ?c1 (map Some lits)) = R"
      using assms(1,2) by (simp add: xFilter_request_eq length_bound bound_bound R [symmetric])
    have fits1: "int (length (generate (xFilter_request ?c1 (map Some lits)))) \<le> INT_MAX"
      using assms(5) by (simp only: R1)
    have "xFilter ?c1 cur' generate (map Some lits) =
        Inr (SQLITE_OK,
             ?c1\<lparr>n := int (length R), columns := ?buf (columns ?c1),
                  constraints := bound lits (constraints ?c1)\<rparr>,
             cur'\<lparr>row := 0\<rparr>)"
      using xFilter_eq [where c = ?c1 and generate = generate and cur = cur' and lits = lits, OF _ len _ fits1]
        assms(1,3)
      by (simp add: R1 cong: if_cong)
    moreover have "?c1\<lparr>n := int (length R), columns := ?buf (columns ?c1),
                  constraints := bound lits (constraints ?c1)\<rparr> = ?c1"
      by (simp add: bound_bound cong: if_cong)
    ultimately show ?thesis by simp
  qed
  from run prep independent again show ?thesis
    by (intro exI [of _ ?c1]) simp
qed

text \<open>
  C1. For a schema with distinct column names and a type per column, and the rows \<open>R\<close>
  the plugin generates for the request: the filter call succeeds, and the scan that
  follows it (column reads of every declared column, then next, until eof) returns
  one entry per row of \<open>R\<close>, in the order of \<open>R\<close>; the entry of a row holds, for each
  declared column in schema order, the code \<open>SQLITE_OK\<close> and the coercion of the row's
  value under that column to the column's declared type. After the filter call, eof
  holds exactly when the cursor position is at or past the number of rows of \<open>R\<close>.
  (The arguments are texts and no more than the constraints; the row and column counts
  fit \<open>int\<close>.)
\<close>

theorem filter_then_scan:
  assumes "length (column_names c) \<le> length (types c)"
    and "length lits \<le> length (constraints c)"
    and "distinct (column_names c)"
    and "R = generate (xFilter_request c (map Some lits))"
    and "int (length R) \<le> INT_MAX"
    and "int (length (column_names c)) \<le> INT_MAX"
  shows "\<exists>c1. xFilter c cur generate (map Some lits) = Inr (SQLITE_OK, c1, cur\<lparr>row := 0\<rparr>) \<and>
           scan c1 (cur\<lparr>row := 0\<rparr>) =
             Inr (map (\<lambda>r. map (\<lambda>j. (SQLITE_OK,
                                      coerce (column_names c ! j) (types c ! j)
                                        (row_at r (column_names c ! j))))
                           [0..<length (column_names c)])
                      R) \<and>
           (\<forall>cur'. xEof c1 cur' \<longleftrightarrow> int (length R) \<le> row cur')"
proof -
  let ?names = "column_names c"
  let ?c1 = "c\<lparr>n := int (length R),
               columns := (\<lambda>k. if k \<in> set ?names then Some (map (\<lambda>r. row_at r k) R) else columns c k),
               constraints := bound lits (constraints c)\<rparr>"
  let ?out = "\<lambda>v j. (SQLITE_OK, coerce (?names ! j) (types c ! j) v)"
  have R: "generate (xFilter_request c (map Some lits)) = R"
    using assms(4) by simp
  have fits: "int (length (generate (xFilter_request c (map Some lits)))) \<le> INT_MAX"
    using assms(5) by (simp add: R)
  note tys = assms(1)
  have run: "xFilter c cur generate (map Some lits) = Inr (SQLITE_OK, ?c1, cur\<lparr>row := 0\<rparr>)"
    using xFilter_eq [where generate = generate and cur = cur, OF tys assms(2,3) fits]
    by (simp add: R cong: if_cong)
  have "scan ?c1 (cur\<lparr>row := 0\<rparr>) =
      Inr (map (\<lambda>i. map (\<lambda>j. (SQLITE_OK,
                              coerce (column_names ?c1 ! j) (types ?c1 ! j)
                                (vec_at (columns ?c1) (column_names ?c1 ! j) ! i)))
                   [0..<length (column_names ?c1)])
             [nat (row (cur\<lparr>row := 0\<rparr>))..<nat (n ?c1)])"
    using tys assms(5,6) by (intro scan_rows) (simp_all add: vec_at_def)
  then have sc: "scan ?c1 (cur\<lparr>row := 0\<rparr>) =
      Inr (map (\<lambda>i. map (\<lambda>j. ?out (vec_at (columns ?c1) (?names ! j) ! i) j) [0..<length ?names])
             [0..<length R])"
    by simp
  have "map (\<lambda>i. map (\<lambda>j. ?out (vec_at (columns ?c1) (?names ! j) ! i) j) [0..<length ?names])
          [0..<length R] =
        map (\<lambda>i. map (\<lambda>j. ?out (row_at (R ! i) (?names ! j)) j) [0..<length ?names])
          [0..<length R]"
    by (intro map_cong refl) (simp add: vec_at_def)
  also have "\<dots> = map ((\<lambda>r. map (\<lambda>j. ?out (row_at r (?names ! j)) j) [0..<length ?names]) \<circ> nth R)
          [0..<length R]"
    by (simp add: comp_def)
  also have "\<dots> = map (\<lambda>r. map (\<lambda>j. ?out (row_at r (?names ! j)) j) [0..<length ?names]) R"
    by (simp only: map_map [symmetric] map_nth)
  finally have "scan ?c1 (cur\<lparr>row := 0\<rparr>) =
      Inr (map (\<lambda>r. map (\<lambda>j. ?out (row_at r (?names ! j)) j) [0..<length ?names]) R)"
    using sc by simp
  moreover have "\<forall>cur'. xEof ?c1 cur' \<longleftrightarrow> int (length R) \<le> row cur'"
    by (simp add: xEof_def)
  ultimately show ?thesis
    using run by (intro exI [of _ ?c1]) simp
qed

lemma pid_constrained_simps:
  "column_names pid_constrained = [''pid'', ''name'', ''rss'']"
  "types pid_constrained = [''INTEGER'', ''TEXT'', ''BIGINT'']"
  "constraints pid_constrained = [(''pid'', Constraint_of 2)]"
  by (simp_all add: pid_constrained_def processes_def)

lemma by_pid_request: "by_pid (xFilter_request pid_constrained (map Some [''7''])) = two_rows"
proof -
  have "cl_constraints (qc_at (xFilter_request pid_constrained (map Some [''7''])) ''pid'') =
      map snd (filter (\<lambda>p. fst p = ''pid'')
        (take (length [''7'']) (bound [''7''] (constraints pid_constrained))))"
    by (rule request_constraints_take) (simp_all add: pid_constrained_simps)
  then have "map expr (cl_constraints
      (qc_at (xFilter_request pid_constrained (map Some [''7''])) ''pid'')) = [''7'']"
    by (simp add: pid_constrained_simps bound_def c_str_def)
  then show ?thesis by (simp add: by_pid_def del: list.map)
qed

lemma some7: "map Some [''7''] = [Some ''7'']"
  by simp

lemma pid_constrained_hyps:
  "length (column_names pid_constrained) \<le> length (types pid_constrained)"
  "length [''7''] \<le> length (constraints pid_constrained)"
  "distinct (column_names pid_constrained)"
  "two_rows = by_pid (xFilter_request pid_constrained (map Some [''7'']))"
  "int (length two_rows) \<le> INT_MAX"
  "int (length (column_names pid_constrained)) \<le> INT_MAX"
  by (simp_all add: pid_constrained_simps by_pid_request two_rows_def INT_MAX_def del: list.map)

theorem xFilter_rectangular_witness:
  "\<exists>c1. xFilter pid_constrained \<lparr>row = 2\<rparr> by_pid [Some ''7''] = Inr (SQLITE_OK, c1, \<lparr>row = 0\<rparr>) \<and>
     n c1 = 2 \<and>
     length (vec_at (columns c1) ''pid'') = 2 \<and>
     length (vec_at (columns c1) ''name'') = 2 \<and>
     length (vec_at (columns c1) ''rss'') = 2 \<and>
     vec_at (columns c1) ''pid'' ! 0 = ''7'' \<and>
     vec_at (columns c1) ''pid'' ! 1 = [] \<and>
     vec_at (columns c1) ''name'' ! 1 = ''sh'' \<and>
     columns c1 ''uid'' = None"
proof -
  from xFilter_rectangular [where c = pid_constrained and lits = "[''7'']" and generate = by_pid
      and cur = "\<lparr>row = 2\<rparr>" and R = two_rows, OF pid_constrained_hyps(1-5), unfolded some7]
  obtain c1 where run: "xFilter pid_constrained \<lparr>row = 2\<rparr> by_pid [Some ''7''] =
        Inr (SQLITE_OK, c1, \<lparr>row = 0\<rparr>)"
    and cnt: "n c1 = int (length two_rows)"
    and len: "\<forall>k \<in> set (column_names pid_constrained).
        length (vec_at (columns c1) k) = length two_rows"
    and vals: "\<forall>k \<in> set (column_names pid_constrained). \<forall>i < length two_rows.
        vec_at (columns c1) k ! i = (case (two_rows ! i) k of None \<Rightarrow> [] | Some v \<Rightarrow> v)"
    and other: "\<forall>k. k \<notin> set (column_names pid_constrained) \<longrightarrow>
        columns c1 k = columns pid_constrained k"
    by auto
  have "n c1 = 2" using cnt by (simp add: two_rows_def)
  moreover have "length (vec_at (columns c1) ''pid'') = 2"
    "length (vec_at (columns c1) ''name'') = 2" "length (vec_at (columns c1) ''rss'') = 2"
    using len by (simp_all add: pid_constrained_simps two_rows_def)
  moreover have "vec_at (columns c1) ''pid'' ! 0 = ''7''"
    using vals [rule_format, of "''pid''" 0] by (simp add: pid_constrained_simps two_rows_def)
  moreover have "vec_at (columns c1) ''pid'' ! 1 = []"
    using vals [rule_format, of "''pid''" 1] by (simp add: pid_constrained_simps two_rows_def)
  moreover have "vec_at (columns c1) ''name'' ! 1 = ''sh''"
    using vals [rule_format, of "''name''" 1] by (simp add: pid_constrained_simps two_rows_def)
  moreover have "columns c1 ''uid'' = None"
    using other [rule_format, of "''uid''"]
    by (simp add: pid_constrained_simps) (simp add: pid_constrained_def processes_def)
  ultimately show ?thesis using run by (intro exI [of _ c1]) simp
qed
theorem xFilter_refilter_witness:
  "\<exists>c1. xFilter pid_constrained \<lparr>row = 2\<rparr> by_pid [Some ''7''] = Inr (SQLITE_OK, c1, \<lparr>row = 0\<rparr>) \<and>
     n c1 = 2 \<and>
     columns c1 ''pid'' = Some [''7'', []] \<and>
     columns c1 ''name'' = Some [[], ''sh''] \<and>
     columns c1 ''rss'' = Some [[], []] \<and>
     xFilter c1 \<lparr>row = 2\<rparr> by_pid [Some ''7''] = Inr (SQLITE_OK, c1, \<lparr>row = 0\<rparr>)"
proof -
  from xFilter_refilter [where c = pid_constrained and lits = "[''7'']" and generate = by_pid
      and cur = "\<lparr>row = 2\<rparr>" and R = two_rows, OF pid_constrained_hyps(1-5), unfolded some7]
  obtain c1 where run: "xFilter pid_constrained \<lparr>row = 2\<rparr> by_pid [Some ''7''] =
        Inr (SQLITE_OK, c1, \<lparr>row = 0\<rparr>)"
    and cnt: "n c1 = int (length two_rows)"
    and vals: "\<forall>k \<in> set (column_names pid_constrained).
        columns c1 k = Some (map (\<lambda>r. row_at r k) two_rows)"
    and again: "\<forall>cur'. xFilter c1 cur' by_pid [Some ''7''] = Inr (SQLITE_OK, c1, cur'\<lparr>row := 0\<rparr>)"
    by auto
  have "n c1 = 2" using cnt by (simp add: two_rows_def)
  moreover have "columns c1 ''pid'' = Some [''7'', []]"
    "columns c1 ''name'' = Some [[], ''sh'']" "columns c1 ''rss'' = Some [[], []]"
    using vals by (simp_all add: pid_constrained_simps two_rows_def row_at_def)
  moreover have "xFilter c1 \<lparr>row = 2\<rparr> by_pid [Some ''7''] = Inr (SQLITE_OK, c1, \<lparr>row = 0\<rparr>)"
    using again [rule_format, of "\<lparr>row = 2\<rparr>"] by simp
  ultimately show ?thesis using run by (intro exI [of _ c1]) simp
qed

theorem filter_then_scan_witness:
  "\<exists>c1. xFilter pid_constrained \<lparr>row = 2\<rparr> by_pid [Some ''7''] = Inr (SQLITE_OK, c1, \<lparr>row = 0\<rparr>) \<and>
     scan c1 \<lparr>row = 0\<rparr> =
       Inr [[(SQLITE_OK, Some (ResultInt 7), []),
             (SQLITE_OK, Some (ResultText []), []),
             (SQLITE_OK, Some (ResultInt64 (- 1)), [''Error casting rss () to BIGINT''])],
            [(SQLITE_OK, Some (ResultInt (- 1)), [''Error casting pid () to INTEGER'']),
             (SQLITE_OK, Some (ResultText ''sh''), []),
             (SQLITE_OK, Some (ResultInt64 (- 1)), [''Error casting rss () to BIGINT''])]] \<and>
     \<not> xEof c1 \<lparr>row = 1\<rparr> \<and> xEof c1 \<lparr>row = 2\<rparr>"
proof -
  have cols: "[0..<length (column_names pid_constrained)] = [0, 1, 2]"
    by (simp add: pid_constrained_simps upt_rec)
  have parse: "lexical_cast_int ''7'' = Some 7" "lexical_cast_int [] = None"
    "lexical_cast_long_long [] = None"
    by (simp_all add: lexical_cast_defs)
  have out: "map (\<lambda>r. map (\<lambda>j. (SQLITE_OK,
                 coerce (column_names pid_constrained ! j) (types pid_constrained ! j)
                   (row_at r (column_names pid_constrained ! j))))
               [0..<length (column_names pid_constrained)]) two_rows =
      [[(SQLITE_OK, Some (ResultInt 7), []),
        (SQLITE_OK, Some (ResultText []), []),
        (SQLITE_OK, Some (ResultInt64 (- 1)), [''Error casting rss () to BIGINT''])],
       [(SQLITE_OK, Some (ResultInt (- 1)), [''Error casting pid () to INTEGER'']),
        (SQLITE_OK, Some (ResultText ''sh''), []),
        (SQLITE_OK, Some (ResultInt64 (- 1)), [''Error casting rss () to BIGINT''])]]"
    unfolding cols
    by (simp add: pid_constrained_simps two_rows_def row_at_def coerce_def c_str_def parse)
  from filter_then_scan [where c = pid_constrained and lits = "[''7'']" and generate = by_pid
      and cur = "\<lparr>row = 2\<rparr>" and R = two_rows, OF pid_constrained_hyps, unfolded some7]
  obtain c1 where run: "xFilter pid_constrained \<lparr>row = 2\<rparr> by_pid [Some ''7''] =
        Inr (SQLITE_OK, c1, \<lparr>row = 0\<rparr>)"
    and sc: "scan c1 \<lparr>row = 0\<rparr> =
        Inr (map (\<lambda>r. map (\<lambda>j. (SQLITE_OK,
                 coerce (column_names pid_constrained ! j) (types pid_constrained ! j)
                   (row_at r (column_names pid_constrained ! j))))
               [0..<length (column_names pid_constrained)]) two_rows)"
    and eof: "\<forall>cur'. xEof c1 cur' \<longleftrightarrow> int (length two_rows) \<le> row cur'"
    by auto
  have "\<not> xEof c1 \<lparr>row = 1\<rparr>" "xEof c1 \<lparr>row = 2\<rparr>"
    using eof by (simp_all add: two_rows_def)
  with run sc out show ?thesis by (intro exI [of _ c1]) simp
qed

section \<open>Negotiation and binding\<close>

lemma length_assigned: "length (assigned ks e us) = length us"
  by (induction ks e us rule: assigned.induct) simp_all

lemma assigned_nth:
  "j < length ks \<Longrightarrow> length ks \<le> length us \<Longrightarrow>
   assigned ks e us ! j =
     (if usable (ks ! j) then e + int (length (filter usable (take (Suc j) ks))) else us ! j)"
proof (induction ks e us arbitrary: j rule: assigned.induct)
  case (1 k ks e u us)
  show ?case
  proof (cases j)
    case 0
    then show ?thesis by simp
  next
    case (Suc j')
    then have "j' < length ks" "length ks \<le> length us" using "1.prems" by simp_all
    then show ?thesis using "1.IH" Suc by simp
  qed
qed simp_all

lemma xBestIndex_loop_eq:
  assumes "\<forall>k \<in> set ks. usable k \<longrightarrow> 0 \<le> iColumn k \<and> iColumn k < int (length names)"
    and "int (length names) \<le> INT_MAX"
    and "i + length ks \<le> length us"
  shows "xBestIndex_loop names ks i e (cs, us) =
    Inr (cs @ proposed names ks, take i us @ assigned ks e (drop i us))"
  using assms(1,3)
proof (induction ks arbitrary: i e cs us)
  case Nil
  then show ?case by (simp add: proposed_def)
next
  case (Cons k ks)
  have i: "i < length us" using Cons.prems(2) by simp
  then have dr: "drop i us = us ! i # drop (Suc i) us"
    by (simp add: Cons_nth_drop_Suc)
  have rest: "\<forall>k \<in> set ks. usable k \<longrightarrow> 0 \<le> iColumn k \<and> iColumn k < int (length names)"
    using Cons.prems(1) by simp
  show ?case
  proof (cases "usable k")
    case False
    have "xBestIndex_loop names ks (Suc i) e (cs, us) =
        Inr (cs @ proposed names ks, take (Suc i) us @ assigned ks e (drop (Suc i) us))"
      using rest Cons.prems(2) by (intro Cons.IH) simp_all
    then show ?thesis
      using False i by (simp add: dr proposed_def take_Suc_conv_app_nth)
  next
    case True
    then have col: "0 \<le> iColumn k" "iColumn k < int (length names)"
      using Cons.prems(1) by simp_all
    then have "is_int (iColumn k)" using assms(2) by (simp add: is_int_def INT_MAX_def)
    then have sz: "to_size_t (iColumn k) = nat (iColumn k)"
      using col(1) by (intro to_size_t_nonneg)
    have inr: "\<not> length names \<le> to_size_t (iColumn k)"
      using col sz by simp
    have "xBestIndex_loop names ks (Suc i) (e + 1)
          (cs @ [(names ! nat (iColumn k), Constraint_of (op k))], us[i := e + 1]) =
        Inr ((cs @ [(names ! nat (iColumn k), Constraint_of (op k))]) @ proposed names ks,
             take (Suc i) (us[i := e + 1]) @ assigned ks (e + 1) (drop (Suc i) (us[i := e + 1])))"
      using rest Cons.prems(2) by (intro Cons.IH) simp_all
    moreover have "take (Suc i) (us[i := e + 1]) = take i us @ [e + 1]"
      using i by (simp add: take_Suc_conv_app_nth)
    moreover have "drop (Suc i) (us[i := e + 1]) = drop (Suc i) us"
      by simp
    ultimately show ?thesis
      using True i inr by (simp add: dr sz proposed_def Constraint_of_def)
  qed
qed

lemma xBestIndex_loop_fault:
  assumes "\<exists>k \<in> set ks. usable k \<and> length names \<le> to_size_t (iColumn k)"
    and "i + length ks \<le> length us"
  shows "xBestIndex_loop names ks i e (cs, us) = Inl ColumnNamesOutOfRange"
  using assms
proof (induction ks arbitrary: i e cs us)
  case Nil
  then show ?case by simp
next
  case (Cons k ks)
  show ?case
  proof (cases "usable k \<and> length names \<le> to_size_t (iColumn k)")
    case True
    then show ?thesis by simp
  next
    case False
    then have ex: "\<exists>k \<in> set ks. usable k \<and> length names \<le> to_size_t (iColumn k)"
      using Cons.prems(1) by auto
    have len: "Suc i + length ks \<le> length (us[i := e + 1])" "Suc i + length ks \<le> length us"
      using Cons.prems(2) by simp_all
    have i: "\<not> length us \<le> i" using Cons.prems(2) by simp
    show ?thesis
      using False i Cons.IH [OF ex len(1)] Cons.IH [OF ex len(2)]
      by (cases "usable k") simp_all
  qed
qed

lemma xBestIndex_loop_no_fault:
  assumes "\<not> (\<exists>k \<in> set ks. usable k \<and> length names \<le> to_size_t (iColumn k))"
    and "i + length ks \<le> length us"
  shows "\<exists>cs' us'. xBestIndex_loop names ks i e (cs, us) = Inr (cs', us')"
  using assms
proof (induction ks arbitrary: i e cs us)
  case Nil
  then show ?case by simp
next
  case (Cons k ks)
  have ex: "\<not> (\<exists>k \<in> set ks. usable k \<and> length names \<le> to_size_t (iColumn k))"
    using Cons.prems(1) by auto
  have i: "\<not> length us \<le> i" using Cons.prems(2) by simp
  have len: "Suc i + length ks \<le> length (us[i := e + 1])" "Suc i + length ks \<le> length us"
    using Cons.prems(2) by simp_all
  show ?case
    using Cons.prems(1) i Cons.IH [OF ex len(1)] Cons.IH [OF ex len(2)]
    by (cases "usable k") simp_all
qed
lemma xBestIndex_eq:
  assumes "\<forall>k \<in> set (aConstraint info). usable k \<longrightarrow>
             0 \<le> iColumn k \<and> iColumn k < int (length (column_names c))"
    and "int (length (column_names c)) \<le> INT_MAX"
    and "length (aConstraint info) \<le> length (aConstraintUsage info)"
  shows "xBestIndex c info =
    Inr (SQLITE_OK,
         c\<lparr>constraints := constraints c @ proposed (column_names c) (aConstraint info)\<rparr>,
         info\<lparr>aConstraintUsage := assigned (aConstraint info) 0 (aConstraintUsage info)\<rparr>)"
  using xBestIndex_loop_eq [OF assms(1,2), of 0 "aConstraintUsage info" 0 "constraints c"] assms(3)
  by (simp add: xBestIndex_def)

lemma xBestIndex_constraints:
  assumes "\<forall>k \<in> set (aConstraint info). usable k \<longrightarrow>
             0 \<le> iColumn k \<and> iColumn k < int (length (column_names c))"
    and "int (length (column_names c)) \<le> INT_MAX"
    and "length (aConstraint info) \<le> length (aConstraintUsage info)"
  shows "\<exists>c' info'. xBestIndex c info = Inr (SQLITE_OK, c', info') \<and>
           column_names c' = column_names c \<and> types c' = types c \<and>
           constraints c' = constraints c @ proposed (column_names c) (aConstraint info) \<and>
           aConstraintUsage info' = assigned (aConstraint info) 0 (aConstraintUsage info)"
  using xBestIndex_eq [OF assms] by simp

lemma on_name_simps:
  "aConstraint on_name = [\<lparr>iColumn = 1, op = 2, usable = True\<rparr>]"
  "aConstraintUsage on_name = [0]"
  by (simp_all add: on_name_def)

lemma processes_constraints: "constraints processes = []"
  by (simp add: processes_def)

lemma bound_proposed:
  "length lits = length (filter usable ks) \<Longrightarrow>
   bound lits (proposed names ks) =
     map (\<lambda>(k, a). (names ! nat (iColumn k), \<lparr>operator = op k, expr = c_str a\<rparr>))
       (zip (filter usable ks) lits)"
  by (simp add: bound_def proposed_def zip_map1 case_prod_unfold)

lemma request_constraints:
  assumes "length (column_names c) \<le> length (types c)" and "length lits = length (constraints c)"
  shows "cl_constraints (qc_at (xFilter_request c (map Some lits)) col) =
    map snd (filter (\<lambda>p. fst p = col) (bound lits (constraints c)))"
proof -
  have "cl_constraints (qc_at Map.empty col) = []"
    by (simp add: qc_at_def ConstraintList_default_def)
  then show ?thesis
    using assms
    by (simp add: xFilter_request_eq add_all_constraints with_affinities_constraints length_bound)
qed

text \<open>
  C2, as the code has it. With every usable candidate naming a declared column and a
  usage entry for every candidate, best-index appends to the ConstraintSet, for the
  usable candidates in the order offered, the pair of the column's name and a constraint
  with the candidate's operator and no literal yet; the \<open>argvIndex\<close> of a usable candidate
  is its 1-based rank among the usable candidates (1 for the first, one more for each
  next), and the \<open>argvIndex\<close> of a candidate that is not usable is left as it was. When
  the ConstraintSet was empty as the negotiation started, filtering next with one literal
  per accepted candidate binds literal \<open>i\<close>, up to its first zero byte, to accepted
  candidate \<open>i\<close>: the ConstraintSet holds the triples (column, operator, literal up to its
  first zero byte) in that order, and the request holds, under every column, exactly the
  (operator, literal) pairs of that column in that order. All of it is a function of the
  list of usable candidates alone, wherever the others stood.
\<close>

theorem positional_binding:
  assumes "\<forall>k \<in> set (aConstraint info). usable k \<longrightarrow>
           0 \<le> iColumn k \<and> iColumn k < int (length (column_names c))"
    and "int (length (column_names c)) \<le> INT_MAX"
    and "length (aConstraintUsage info) = length (aConstraint info)"
    and "length (column_names c) \<le> length (types c)"
    and "accepted = filter usable (aConstraint info)"
    and "length lits = length accepted"
  shows "\<exists>c1 info1. xBestIndex c info = Inr (SQLITE_OK, c1, info1) \<and>
     constraints c1 =
       constraints c @
       map (\<lambda>k. (column_names c ! nat (iColumn k), \<lparr>operator = op k, expr = []\<rparr>)) accepted \<and>
     length (aConstraintUsage info1) = length (aConstraint info) \<and>
     (\<forall>j < length (aConstraint info).
        aConstraintUsage info1 ! j =
          (if usable (aConstraint info ! j)
           then int (length (filter usable (take (Suc j) (aConstraint info))))
           else aConstraintUsage info ! j)) \<and>
     (constraints c = [] \<longrightarrow>
        (\<exists>cols. xFilter_prepare c1 (map Some lits) =
           Inr (cols,
                map (\<lambda>(k, a). (column_names c ! nat (iColumn k),
                                \<lparr>operator = op k, expr = c_str a\<rparr>))
                  (zip accepted lits),
                xFilter_request c1 (map Some lits))) \<and>
        (\<forall>col. cl_constraints (qc_at (xFilter_request c1 (map Some lits)) col) =
           map (\<lambda>(k, a). \<lparr>operator = op k, expr = c_str a\<rparr>)
             (filter (\<lambda>(k, a). column_names c ! nat (iColumn k) = col) (zip accepted lits))))"
proof -
  let ?ks = "aConstraint info"
  let ?names = "column_names c"
  let ?c1 = "c\<lparr>constraints := constraints c @ proposed ?names ?ks\<rparr>"
  let ?info1 = "info\<lparr>aConstraintUsage := assigned ?ks 0 (aConstraintUsage info)\<rparr>"
  let ?triples = "map (\<lambda>(k, a). (?names ! nat (iColumn k), \<lparr>operator = op k, expr = c_str a\<rparr>))
      (zip accepted lits)"
  have bi: "xBestIndex c info = Inr (SQLITE_OK, ?c1, ?info1)"
    using xBestIndex_eq [OF assms(1,2)] assms(3) by simp
  have cs1: "constraints ?c1 =
      constraints c @
      map (\<lambda>k. (?names ! nat (iColumn k), \<lparr>operator = op k, expr = []\<rparr>)) accepted"
    by (simp add: proposed_def assms(5))
  have len1: "length (aConstraintUsage ?info1) = length ?ks"
    by (simp add: length_assigned assms(3))
  have idx: "\<forall>j < length ?ks.
      aConstraintUsage ?info1 ! j =
        (if usable (?ks ! j) then int (length (filter usable (take (Suc j) ?ks)))
         else aConstraintUsage info ! j)"
    using assms(3) by (simp add: assigned_nth)
  have rest: "(\<exists>cols. xFilter_prepare ?c1 (map Some lits) =
        Inr (cols, ?triples, xFilter_request ?c1 (map Some lits))) \<and>
      (\<forall>col. cl_constraints (qc_at (xFilter_request ?c1 (map Some lits)) col) =
         map (\<lambda>(k, a). \<lparr>operator = op k, expr = c_str a\<rparr>)
           (filter (\<lambda>(k, a). ?names ! nat (iColumn k) = col) (zip accepted lits)))"
    if empty: "constraints c = []"
  proof -
    have argc: "length lits = length (constraints ?c1)"
      using assms(5,6) empty by (simp add: proposed_def)
    have bd: "bound lits (constraints ?c1) = ?triples"
      using assms(5,6) empty by (simp add: bound_proposed)
    have "xFilter_prepare ?c1 (map Some lits) =
        Inr (cleared (column_names ?c1) (columns ?c1), bound lits (constraints ?c1),
             add_all (take (length lits) (bound lits (constraints ?c1)))
               (with_affinities (column_names ?c1) (types ?c1) Map.empty))"
      using assms(4) argc by (intro xFilter_prepare_eq) simp_all
    moreover have "xFilter_request ?c1 (map Some lits) =
        add_all (take (length lits) (bound lits (constraints ?c1)))
          (with_affinities (column_names ?c1) (types ?c1) Map.empty)"
      using assms(4) argc by (intro xFilter_request_eq) simp_all
    ultimately have prep: "xFilter_prepare ?c1 (map Some lits) =
        Inr (cleared (column_names ?c1) (columns ?c1), ?triples,
             xFilter_request ?c1 (map Some lits))"
      by (simp only: bd)
    have req: "cl_constraints (qc_at (xFilter_request ?c1 (map Some lits)) col) =
        map (\<lambda>(k, a). \<lparr>operator = op k, expr = c_str a\<rparr>)
          (filter (\<lambda>(k, a). ?names ! nat (iColumn k) = col) (zip accepted lits))" for col
    proof -
      have "cl_constraints (qc_at (xFilter_request ?c1 (map Some lits)) col) =
          map snd (filter (\<lambda>p. fst p = col) (bound lits (constraints ?c1)))"
        using assms(4) argc by (intro request_constraints) simp_all
      also have "\<dots> = map snd (filter (\<lambda>p. fst p = col) ?triples)"
        by (simp only: bd)
      also have "\<dots> = map (\<lambda>(k, a). \<lparr>operator = op k, expr = c_str a\<rparr>)
          (filter (\<lambda>(k, a). ?names ! nat (iColumn k) = col) (zip accepted lits))"
        by (simp add: filter_map comp_def case_prod_unfold)
      finally show ?thesis .
    qed
    from prep req show ?thesis
      by blast
  qed
  from bi cs1 len1 idx rest show ?thesis
    by blast
qed

theorem positional_binding_witness:
  "\<exists>c1 info1. xBestIndex processes offered = Inr (SQLITE_OK, c1, info1) \<and>
     constraints c1 =
       [(''pid'', \<lparr>operator = 2, expr = []\<rparr>), (''name'', \<lparr>operator = 2, expr = []\<rparr>)] \<and>
     length (aConstraintUsage info1) = 4 \<and>
     aConstraintUsage info1 ! 0 = 0 \<and> aConstraintUsage info1 ! 1 = 1 \<and>
     aConstraintUsage info1 ! 2 = 0 \<and> aConstraintUsage info1 ! 3 = 2 \<and>
     cl_constraints (qc_at (xFilter_request c1 [Some ''7'', Some ''sh'']) ''pid'') =
       [\<lparr>operator = 2, expr = ''7''\<rparr>] \<and>
     cl_constraints (qc_at (xFilter_request c1 [Some ''7'', Some ''sh'']) ''name'') =
       [\<lparr>operator = 2, expr = ''sh''\<rparr>] \<and>
     cl_constraints (qc_at (xFilter_request c1 [Some ''7'', Some ''sh'']) ''rss'') = []"
proof -
  let ?acc = "[\<lparr>iColumn = 0, op = 2, usable = True\<rparr>, \<lparr>iColumn = 1, op = 2, usable = True\<rparr>]"
  have m: "map Some [''7'', ''sh''] = [Some ''7'', Some ''sh'']"
    by simp
  have ks: "aConstraint offered =
      [\<lparr>iColumn = 1, op = 65, usable = False\<rparr>, \<lparr>iColumn = 0, op = 2, usable = True\<rparr>,
       \<lparr>iColumn = 2, op = 4, usable = False\<rparr>, \<lparr>iColumn = 1, op = 2, usable = True\<rparr>]"
    and us: "aConstraintUsage offered = [0, 0, 0, 0]"
    by (simp_all add: offered_def)
  have hyps: "\<forall>k \<in> set (aConstraint offered). usable k \<longrightarrow>
       0 \<le> iColumn k \<and> iColumn k < int (length (column_names processes))"
    "int (length (column_names processes)) \<le> INT_MAX"
    "length (aConstraintUsage offered) = length (aConstraint offered)"
    "length (column_names processes) \<le> length (types processes)"
    "?acc = filter usable (aConstraint offered)"
    "length [''7'', ''sh''] = length ?acc"
    by (simp_all add: processes_names processes_types ks us INT_MAX_def)
  from positional_binding [where c = processes and info = offered and accepted = ?acc
      and lits = "[''7'', ''sh'']", OF hyps, unfolded m]
  obtain c1 info1 where run: "xBestIndex processes offered = Inr (SQLITE_OK, c1, info1)"
    and cs: "constraints c1 =
      constraints processes @
      map (\<lambda>k. (column_names processes ! nat (iColumn k), \<lparr>operator = op k, expr = []\<rparr>)) ?acc"
    and len: "length (aConstraintUsage info1) = length (aConstraint offered)"
    and idx: "\<forall>j < length (aConstraint offered).
        aConstraintUsage info1 ! j =
          (if usable (aConstraint offered ! j)
           then int (length (filter usable (take (Suc j) (aConstraint offered))))
           else aConstraintUsage offered ! j)"
    and bind: "constraints processes = [] \<longrightarrow>
      (\<exists>cols. xFilter_prepare c1 [Some ''7'', Some ''sh''] =
         Inr (cols,
              map (\<lambda>(k, a). (column_names processes ! nat (iColumn k),
                              \<lparr>operator = op k, expr = c_str a\<rparr>))
                (zip ?acc [''7'', ''sh'']),
              xFilter_request c1 [Some ''7'', Some ''sh''])) \<and>
      (\<forall>col. cl_constraints (qc_at (xFilter_request c1 [Some ''7'', Some ''sh'']) col) =
         map (\<lambda>(k, a). \<lparr>operator = op k, expr = c_str a\<rparr>)
           (filter (\<lambda>(k, a). column_names processes ! nat (iColumn k) = col)
              (zip ?acc [''7'', ''sh''])))"
    by blast
  from bind processes_constraints
  have req: "\<forall>col. cl_constraints (qc_at (xFilter_request c1 [Some ''7'', Some ''sh'']) col) =
        map (\<lambda>(k, a). \<lparr>operator = op k, expr = c_str a\<rparr>)
          (filter (\<lambda>(k, a). column_names processes ! nat (iColumn k) = col)
             (zip ?acc [''7'', ''sh'']))"
    by blast
  have "constraints c1 =
      [(''pid'', \<lparr>operator = 2, expr = []\<rparr>), (''name'', \<lparr>operator = 2, expr = []\<rparr>)]"
    using cs by (simp add: processes_names processes_constraints)
  moreover have "length (aConstraintUsage info1) = 4"
    using len by (simp add: ks)
  moreover have "aConstraintUsage info1 ! 0 = 0"
    using idx [rule_format, of 0] by (simp add: ks us)
  moreover have "aConstraintUsage info1 ! 1 = 1"
    using idx [rule_format, of 1] by (simp add: ks us)
  moreover have "aConstraintUsage info1 ! 2 = 0"
    using idx [rule_format, of 2] by (simp add: ks us)
  moreover have "aConstraintUsage info1 ! 3 = 2"
    using idx [rule_format, of 3] by (simp add: ks us)
  moreover have "cl_constraints (qc_at (xFilter_request c1 [Some ''7'', Some ''sh'']) ''pid'') =
      [\<lparr>operator = 2, expr = ''7''\<rparr>]"
    using req [rule_format, of "''pid''"] by (simp add: processes_names c_str_def)
  moreover have "cl_constraints (qc_at (xFilter_request c1 [Some ''7'', Some ''sh'']) ''name'') =
      [\<lparr>operator = 2, expr = ''sh''\<rparr>]"
    using req [rule_format, of "''name''"] by (simp add: processes_names c_str_def)
  moreover have "cl_constraints (qc_at (xFilter_request c1 [Some ''7'', Some ''sh'']) ''rss'') = []"
    using req [rule_format, of "''rss''"] by (simp add: processes_names)
  ultimately show ?thesis using run by blast
qed

text \<open>
  C2, as the spec has it, fails on two inputs. On the process table the engine
  negotiates \<open>name = ?\<close> and filters with a literal of four bytes, \<open>sh\<close>, zero, \<open>x\<close>: the
  constraint the request carries for \<open>name\<close> has the literal \<open>sh\<close>, not the four bytes.
  On the same table after an earlier negotiation left a constraint on \<open>pid\<close> in the
  ConstraintSet, the engine negotiates \<open>name = ?\<close>, is given position 1 and filters with
  the literal \<open>sh\<close>: the literal is bound to the entry at index 0, so the request carries
  \<open>sh\<close> for \<open>pid\<close> and nothing for \<open>name\<close>.
\<close>

theorem positional_binding_not_as_proposed:
  "(\<exists>c1 info1. xBestIndex processes on_name = Inr (SQLITE_OK, c1, info1) \<and>
      aConstraintUsage info1 = [1] \<and>
      constraints c1 = [(''name'', \<lparr>operator = 2, expr = []\<rparr>)] \<and>
      cl_constraints
        (qc_at (xFilter_request c1 [Some [CHR ''s'', CHR ''h'', CHR 0x00, CHR ''x'']]) ''name'') =
        [\<lparr>operator = 2, expr = ''sh''\<rparr>]) \<and>
   (\<exists>c1 info1. xBestIndex pid_constrained on_name = Inr (SQLITE_OK, c1, info1) \<and>
      aConstraintUsage info1 = [1] \<and>
      constraints c1 =
        [(''pid'', \<lparr>operator = 2, expr = []\<rparr>), (''name'', \<lparr>operator = 2, expr = []\<rparr>)] \<and>
      cl_constraints (qc_at (xFilter_request c1 [Some ''sh'']) ''pid'') =
        [\<lparr>operator = 2, expr = ''sh''\<rparr>] \<and>
      cl_constraints (qc_at (xFilter_request c1 [Some ''sh'']) ''name'') = [])"
proof -
  obtain c1 i1 where b1: "xBestIndex processes on_name = Inr (SQLITE_OK, c1, i1)"
    and c1: "column_names c1 = [''pid'', ''name'', ''rss'']"
      "types c1 = [''INTEGER'', ''TEXT'', ''BIGINT'']"
      "constraints c1 = [(''name'', \<lparr>operator = 2, expr = []\<rparr>)]"
    and i1: "aConstraintUsage i1 = [1]"
    using xBestIndex_constraints [of on_name processes]
    by (auto simp: processes_names processes_types processes_constraints on_name_simps
        proposed_def INT_MAX_def)
  have r1: "cl_constraints
      (qc_at (xFilter_request c1 [Some [CHR ''s'', CHR ''h'', CHR 0x00, CHR ''x'']]) ''name'') =
      [\<lparr>operator = 2, expr = ''sh''\<rparr>]"
    using request_constraints_take [of c1 "[[CHR ''s'', CHR ''h'', CHR 0x00, CHR ''x'']]" "''name''"]
    by (simp add: c1 bound_def c_str_def)
  obtain c2 i2 where b2: "xBestIndex pid_constrained on_name = Inr (SQLITE_OK, c2, i2)"
    and c2: "column_names c2 = [''pid'', ''name'', ''rss'']"
      "types c2 = [''INTEGER'', ''TEXT'', ''BIGINT'']"
      "constraints c2 =
        [(''pid'', \<lparr>operator = 2, expr = []\<rparr>), (''name'', \<lparr>operator = 2, expr = []\<rparr>)]"
    and i2: "aConstraintUsage i2 = [1]"
    using xBestIndex_constraints [of on_name pid_constrained]
    by (auto simp: pid_constrained_simps on_name_simps proposed_def INT_MAX_def
        Constraint_of_def)
  have req: "cl_constraints (qc_at (xFilter_request c2 [Some ''sh'']) col) =
      map snd (filter (\<lambda>p. fst p = col) [(''pid'', \<lparr>operator = 2, expr = ''sh''\<rparr>)])" for col
    using request_constraints_take [of c2 "[''sh'']" col] by (simp add: c2 bound_def c_str_def)
  have r2: "cl_constraints (qc_at (xFilter_request c2 [Some ''sh'']) ''pid'') =
      [\<lparr>operator = 2, expr = ''sh''\<rparr>]"
    "cl_constraints (qc_at (xFilter_request c2 [Some ''sh'']) ''name'') = []"
    by (simp_all add: req)
  from b1 i1 c1(3) r1 b2 i2 c2(3) r2 show ?thesis
    by blast
qed

text \<open>
  C10. \<open>xBestIndex\<close> reads \<open>column_names[iColumn]\<close> for every usable candidate with no
  check: given a usage entry for every candidate, the call runs into the out-of-range
  read of \<open>column_names\<close> exactly when some usable candidate has a column index that,
  converted to \<open>size_t\<close>, is not below the number of columns. The rowid pseudo-column's
  index \<open>-1\<close> converts to \<open>2^64 - 1\<close>.
\<close>

theorem xBestIndex_unchecked_column:
  assumes "length (aConstraintUsage info) = length (aConstraint info)"
  shows "(xBestIndex c info = Inl ColumnNamesOutOfRange \<longleftrightarrow>
            (\<exists>k \<in> set (aConstraint info).
               usable k \<and> length (column_names c) \<le> to_size_t (iColumn k))) \<and>
         to_size_t (- 1) = 2 ^ 64 - 1"
proof -
  let ?bad = "\<exists>k \<in> set (aConstraint info). usable k \<and> length (column_names c) \<le> to_size_t (iColumn k)"
  have len: "0 + length (aConstraint info) \<le> length (aConstraintUsage info)"
    using assms by simp
  have "xBestIndex c info = Inl ColumnNamesOutOfRange" if ?bad
    using xBestIndex_loop_fault [OF that len, of 0 "constraints c"]
    by (simp add: xBestIndex_def)
  moreover have "xBestIndex c info \<noteq> Inl ColumnNamesOutOfRange" if "\<not> ?bad"
    using xBestIndex_loop_no_fault [OF that len, of 0 "constraints c"]
    by (auto simp: xBestIndex_def)
  moreover have "to_size_t (- 1) = 2 ^ 64 - 1"
    by (simp add: to_size_t_def)
  ultimately show ?thesis by blast
qed

theorem xBestIndex_unchecked_column_witness:
  "xBestIndex processes on_rowid = Inl ColumnNamesOutOfRange"
proof -
  have len: "length (aConstraintUsage on_rowid) = length (aConstraint on_rowid)"
    by (simp add: on_rowid_def)
  have "\<exists>k \<in> set (aConstraint on_rowid).
      usable k \<and> length (column_names processes) \<le> to_size_t (iColumn k)"
    by (simp add: on_rowid_def processes_names to_size_t_def)
  then show ?thesis
    using xBestIndex_unchecked_column [OF len, of processes] by blast
qed

section \<open>Where the callbacks leave their contract\<close>

lemma by_pid_fits: "int (length (by_pid q)) \<le> INT_MAX"
  by (simp add: by_pid_def two_rows_def INT_MAX_def)

lemma created_simps:
  "column_names created = [''pid'', ''name'', ''rss'']"
  "types created = [''INTEGER'', ''TEXT'', ''BIGINT'']"
  "constraints created = []"
  by (simp_all add: created_def new_T_def)

lemma xFilter_constraints:
  assumes "length (column_names c) \<le> length (types c)" and "length lits \<le> length (constraints c)"
    and "distinct (column_names c)"
    and "int (length (generate (xFilter_request c (map Some lits)))) \<le> INT_MAX"
  shows "\<exists>c'. xFilter c cur generate (map Some lits) = Inr (SQLITE_OK, c', cur\<lparr>row := 0\<rparr>) \<and>
           column_names c' = column_names c \<and> types c' = types c \<and>
           constraints c' = bound lits (constraints c)"
  using xFilter_eq [where generate = generate and cur = cur, OF assms] by simp

text \<open>
  C4. The ConstraintSet is empty on the content \<open>xCreate\<close> builds, but no callback ever
  clears it. Two rounds on the process table: the engine negotiates \<open>pid = ?\<close> and filters
  with the literal \<open>7\<close>, then negotiates \<open>name = ?\<close> and filters with the literal \<open>sh\<close>. The
  second negotiation numbers its candidate 1 again and appends it behind the constraint of
  the first round; the second filter binds \<open>sh\<close> to the constraint at index 0, the stale
  one on \<open>pid\<close>, so the request asks for \<open>pid = sh\<close> and carries nothing for \<open>name\<close>.
\<close>

theorem constraints_accumulate:
  "constraints created = [] \<and>
   (\<exists>c1 i1 c2 c3 i3 c4.
      xBestIndex created on_pid = Inr (SQLITE_OK, c1, i1) \<and>
      xFilter c1 \<lparr>row = 0\<rparr> by_pid [Some ''7''] = Inr (SQLITE_OK, c2, \<lparr>row = 0\<rparr>) \<and>
      xBestIndex c2 on_name = Inr (SQLITE_OK, c3, i3) \<and>
      aConstraintUsage i3 = [1] \<and>
      constraints c3 =
        [(''pid'', \<lparr>operator = 2, expr = ''7''\<rparr>), (''name'', \<lparr>operator = 2, expr = []\<rparr>)] \<and>
      xFilter c3 \<lparr>row = 0\<rparr> by_pid [Some ''sh''] = Inr (SQLITE_OK, c4, \<lparr>row = 0\<rparr>) \<and>
      constraints c4 =
        [(''pid'', \<lparr>operator = 2, expr = ''sh''\<rparr>), (''name'', \<lparr>operator = 2, expr = []\<rparr>)] \<and>
      cl_constraints (qc_at (xFilter_request c3 [Some ''sh'']) ''pid'') =
        [\<lparr>operator = 2, expr = ''sh''\<rparr>] \<and>
      cl_constraints (qc_at (xFilter_request c3 [Some ''sh'']) ''name'') = [])"
proof -
  have pid: "aConstraint on_pid = [\<lparr>iColumn = 0, op = 2, usable = True\<rparr>]"
    "aConstraintUsage on_pid = [0]"
    and nm: "aConstraint on_name = [\<lparr>iColumn = 1, op = 2, usable = True\<rparr>]"
    "aConstraintUsage on_name = [0]"
    by (simp_all add: on_pid_def on_name_def)
  obtain c1 i1 where b1: "xBestIndex created on_pid = Inr (SQLITE_OK, c1, i1)"
    and c1: "column_names c1 = [''pid'', ''name'', ''rss'']"
      "types c1 = [''INTEGER'', ''TEXT'', ''BIGINT'']"
      "constraints c1 = [(''pid'', \<lparr>operator = 2, expr = []\<rparr>)]"
    using xBestIndex_constraints [of on_pid created]
    by (auto simp: created_simps pid proposed_def INT_MAX_def)
  obtain c2 where f1: "xFilter c1 \<lparr>row = 0\<rparr> by_pid [Some ''7''] = Inr (SQLITE_OK, c2, \<lparr>row = 0\<rparr>)"
    and c2: "column_names c2 = [''pid'', ''name'', ''rss'']"
      "types c2 = [''INTEGER'', ''TEXT'', ''BIGINT'']"
      "constraints c2 = [(''pid'', \<lparr>operator = 2, expr = ''7''\<rparr>)]"
    using xFilter_constraints [of c1 "[''7'']" by_pid "\<lparr>row = 0\<rparr>"]
    by (auto simp: c1 by_pid_fits bound_def c_str_def)
  obtain c3 i3 where b2: "xBestIndex c2 on_name = Inr (SQLITE_OK, c3, i3)"
    and c3: "column_names c3 = [''pid'', ''name'', ''rss'']"
      "types c3 = [''INTEGER'', ''TEXT'', ''BIGINT'']"
      "constraints c3 =
        [(''pid'', \<lparr>operator = 2, expr = ''7''\<rparr>), (''name'', \<lparr>operator = 2, expr = []\<rparr>)]"
    and i3: "aConstraintUsage i3 = [1]"
    using xBestIndex_constraints [of on_name c2]
    by (auto simp: c2 nm proposed_def INT_MAX_def)
  obtain c4 where f2: "xFilter c3 \<lparr>row = 0\<rparr> by_pid [Some ''sh''] = Inr (SQLITE_OK, c4, \<lparr>row = 0\<rparr>)"
    and c4: "constraints c4 =
        [(''pid'', \<lparr>operator = 2, expr = ''sh''\<rparr>), (''name'', \<lparr>operator = 2, expr = []\<rparr>)]"
    using xFilter_constraints [of c3 "[''sh'']" by_pid "\<lparr>row = 0\<rparr>"]
    by (auto simp: c3 by_pid_fits bound_def c_str_def)
  have req: "cl_constraints (qc_at (xFilter_request c3 [Some ''sh'']) col) =
      map snd (filter (\<lambda>p. fst p = col) [(''pid'', \<lparr>operator = 2, expr = ''sh''\<rparr>)])" for col
    using request_constraints_take [of c3 "[''sh'']" col] by (simp add: c3 bound_def c_str_def)
  have "cl_constraints (qc_at (xFilter_request c3 [Some ''sh'']) ''pid'') =
      [\<lparr>operator = 2, expr = ''sh''\<rparr>]"
    "cl_constraints (qc_at (xFilter_request c3 [Some ''sh'']) ''name'') = []"
    by (simp_all add: req)
  with b1 f1 b2 i3 c3(3) f2 c4 show ?thesis
    by (intro conjI exI [of _ c1] exI [of _ i1] exI [of _ c2] exI [of _ c3] exI [of _ i3]
        exI [of _ c4]) (simp_all add: created_simps)
qed

lemma xFilter_unguarded:
  assumes "length (column_names c) \<le> length (types c)"
    and "length (constraints c) < length lits"
  shows "xFilter c cur generate (map Some lits) = Inl ConstraintsOutOfRange"
  using assms by (simp add: xFilter_def xFilter_prepare_def reset_columns_eq bind_literals_short)

lemma buffer_rows_fault:
  "buffer_rows rs names acc = Inl f \<Longrightarrow> f = SignedOverflow"
proof (induction rs names acc rule: buffer_rows.induct)
  case (1 names acc)
  then show ?case by simp
next
  case (2 r rs names cols cnt)
  then show ?case by (cases "INT_MAX \<le> cnt") simp_all
qed

lemma xFilter_in_range:
  assumes "length (column_names c) \<le> length (types c)"
    and "length lits \<le> length (constraints c)"
  shows "xFilter c cur generate (map Some lits) \<noteq> Inl ConstraintsOutOfRange"
proof
  let ?req = "add_all (take (length lits) (bound lits (constraints c)))
      (with_affinities (column_names c) (types c) Map.empty)"
  assume "xFilter c cur generate (map Some lits) = Inl ConstraintsOutOfRange"
  then have "buffer_rows (generate ?req) (column_names c)
      (cleared (column_names c) (columns c), 0) = Inl ConstraintsOutOfRange"
    using assms by (simp add: xFilter_def xFilter_prepare_eq split: sum.splits prod.splits)
  from buffer_rows_fault [OF this] show False
    by simp
qed

lemma xBestIndex_loop_grows:
  "xBestIndex_loop names ks i e (cs, us) = Inr (cs', us') \<Longrightarrow>
   length cs' = length cs + length (filter usable ks)"
proof (induction ks arbitrary: i e cs us)
  case Nil
  then show ?case by simp
next
  case (Cons k ks)
  show ?case
  proof (cases "usable k")
    case False
    with Cons.prems have "xBestIndex_loop names ks (Suc i) e (cs, us) = Inr (cs', us')"
      by simp
    from Cons.IH [OF this] False show ?thesis by simp
  next
    case True
    with Cons.prems have "xBestIndex_loop names ks (Suc i) (e + 1)
        (cs @ [(names ! to_size_t (iColumn k), Constraint_of (op k))], us[i := e + 1]) =
        Inr (cs', us')"
      by (simp split: if_splits)
    from Cons.IH [OF this] True show ?thesis by simp
  qed
qed

lemma xBestIndex_grows:
  assumes "xBestIndex c info = Inr (rc, c1, info1)"
  shows "length (constraints c1) =
      length (constraints c) + length (filter usable (aConstraint info))"
    and "column_names c1 = column_names c" and "types c1 = types c"
proof -
  obtain cs us where run: "xBestIndex_loop (column_names c) (aConstraint info) 0 0
      (constraints c, aConstraintUsage info) = Inr (cs, us)"
    and c1: "c1 = c\<lparr>constraints := cs\<rparr>"
    using assms by (auto simp: xBestIndex_def split: sum.splits)
  show "length (constraints c1) =
      length (constraints c) + length (filter usable (aConstraint info))"
    using xBestIndex_loop_grows [OF run] by (simp add: c1)
  show "column_names c1 = column_names c" and "types c1 = types c"
    by (simp_all add: c1)
qed

lemma bind_literals_length:
  "bind_literals argv cs req = Inr (cs', req') \<Longrightarrow> length cs' = length cs"
proof (induction argv cs req arbitrary: cs' req' rule: bind_literals.induct)
  case (1 cs req)
  then show ?case by simp
next
  case (2 a as req)
  then show ?case by simp
next
  case (3 as nm k cs req)
  then show ?case by simp
next
  case (4 e as nm k cs req)
  then obtain cs'' where rest:
      "bind_literals as cs (req(nm \<mapsto> add (qc_at req nm) (k\<lparr>expr := c_str e\<rparr>))) =
       Inr (cs'', req')"
    and cs': "cs' = (nm, k\<lparr>expr := c_str e\<rparr>) # cs''"
    by (auto split: sum.splits)
  from "4.IH" [OF rest] show ?case by (simp add: cs')
qed

lemma xFilter_keeps:
  assumes "xFilter c cur generate argv = Inr (rc, c2, cur2)"
  shows "length (constraints c2) = length (constraints c)"
proof -
  obtain cols cs req where prep: "xFilter_prepare c argv = Inr (cols, cs, req)"
    and c2: "constraints c2 = cs"
    using assms by (auto simp: xFilter_def split: sum.splits)
  from prep obtain req0 where "bind_literals argv (constraints c) req0 = Inr (cs, req)"
    by (auto simp: xFilter_prepare_def split: sum.splits)
  from bind_literals_length [OF this] show ?thesis
    by (simp add: c2)
qed

text \<open>
  C5, as the spec has it, fails when one literal meets the empty ConstraintSet of the
  process table: the binding loop of \<open>xFilter\<close> reads \<open>constraints[0]\<close> past the end of the
  ConstraintSet, and no error code is returned.
\<close>

theorem xFilter_binds_past_the_end:
  "constraints processes = [] \<and>
   xFilter processes \<lparr>row = 0\<rparr> by_pid [Some ''7''] = Inl ConstraintsOutOfRange"
  using xFilter_unguarded [of processes "[''7'']" "\<lparr>row = 0\<rparr>" by_pid]
  by (simp add: processes_names processes_types processes_constraints)

text \<open>
  C5, as the code has it. The binding loop of \<open>xFilter\<close> indexes the ConstraintSet with
  every argument index and no check, and \<open>xFilter\<close> has no error return: on a schema with
  a type per column and arguments that are texts, the call runs into the out-of-range
  access of the ConstraintSet exactly when there are more arguments than entries. That
  \<open>argc\<close> does not exceed the number of entries is a precondition, and the arguments of a
  plan negotiated on the adapter meet it: a best-index call that returns has appended
  one entry for each usable candidate, which is one for each position it handed out, so
  filtering its result with that many arguments stays inside the ConstraintSet; and a
  filter call that returns leaves the number of entries as it was.
\<close>

theorem xFilter_unchecked_argc:
  assumes "length (column_names c) \<le> length (types c)"
  shows "(xFilter c cur generate (map Some lits) = Inl ConstraintsOutOfRange \<longleftrightarrow>
            length (constraints c) < length lits) \<and>
         (\<forall>info rc c1 info1. xBestIndex c info = Inr (rc, c1, info1) \<longrightarrow>
            length (constraints c1) =
              length (constraints c) + length (filter usable (aConstraint info)) \<and>
            (\<forall>args. length args = length (filter usable (aConstraint info)) \<longrightarrow>
               xFilter c1 cur generate (map Some args) \<noteq> Inl ConstraintsOutOfRange)) \<and>
         (\<forall>argv rc c2 cur2. xFilter c cur generate argv = Inr (rc, c2, cur2) \<longrightarrow>
            length (constraints c2) = length (constraints c))"
proof (intro conjI allI impI)
  show "xFilter c cur generate (map Some lits) = Inl ConstraintsOutOfRange \<longleftrightarrow>
      length (constraints c) < length lits"
  proof (cases "length (constraints c) < length lits")
    case True
    with xFilter_unguarded [OF assms this] show ?thesis by simp
  next
    case False
    then have "length lits \<le> length (constraints c)" by simp
    from xFilter_in_range [OF assms this] False show ?thesis by simp
  qed
next
  fix info rc c1 info1
  assume run: "xBestIndex c info = Inr (rc, c1, info1)"
  show len: "length (constraints c1) =
      length (constraints c) + length (filter usable (aConstraint info))"
    using run by (rule xBestIndex_grows(1))
  fix args :: "string list"
  assume args: "length args = length (filter usable (aConstraint info))"
  have "length (column_names c1) \<le> length (types c1)"
    using assms xBestIndex_grows(2,3) [OF run] by simp
  moreover have "length args \<le> length (constraints c1)"
    using len args by simp
  ultimately show "xFilter c1 cur generate (map Some args) \<noteq> Inl ConstraintsOutOfRange"
    by (rule xFilter_in_range)
next
  fix argv rc c2 cur2
  assume "xFilter c cur generate argv = Inr (rc, c2, cur2)"
  then show "length (constraints c2) = length (constraints c)"
    by (rule xFilter_keeps)
qed

theorem xFilter_unchecked_argc_witness:
  "xFilter pid_constrained \<lparr>row = 0\<rparr> by_pid [Some ''7'', Some ''sh''] =
     Inl ConstraintsOutOfRange \<and>
   (\<exists>c1 info1. xBestIndex pid_constrained on_name = Inr (SQLITE_OK, c1, info1) \<and>
      aConstraintUsage info1 = [1] \<and>
      length (constraints c1) = 2 \<and>
      xFilter c1 \<lparr>row = 0\<rparr> by_pid [Some ''sh''] \<noteq> Inl ConstraintsOutOfRange) \<and>
   (\<exists>c2. xFilter pid_constrained \<lparr>row = 0\<rparr> by_pid [Some ''7''] =
      Inr (SQLITE_OK, c2, \<lparr>row = 0\<rparr>) \<and>
      length (constraints c2) = 1)"
proof -
  have tys: "length (column_names pid_constrained) \<le> length (types pid_constrained)"
    by (simp add: pid_constrained_simps)
  note inst = xFilter_unchecked_argc [OF tys, of "\<lparr>row = 0\<rparr>" by_pid "[''7'', ''sh'']"]
  have m: "map Some [''7'', ''sh''] = [Some ''7'', Some ''sh'']"
    and m1: "map Some [''sh''] = [Some ''sh'']"
    by simp_all
  have "length (constraints pid_constrained) < length [''7'', ''sh'']"
    by (simp add: pid_constrained_simps)
  with inst have a: "xFilter pid_constrained \<lparr>row = 0\<rparr> by_pid [Some ''7'', Some ''sh''] =
      Inl ConstraintsOutOfRange"
    unfolding m by blast
  obtain c1 info1 where b: "xBestIndex pid_constrained on_name = Inr (SQLITE_OK, c1, info1)"
    and u: "aConstraintUsage info1 = [1]"
    using xBestIndex_constraints [of on_name pid_constrained]
    by (auto simp: pid_constrained_simps on_name_simps INT_MAX_def)
  from inst b have len: "length (constraints c1) =
      length (constraints pid_constrained) + length (filter usable (aConstraint on_name))"
    and all: "\<forall>args. length args = length (filter usable (aConstraint on_name)) \<longrightarrow>
      xFilter c1 \<lparr>row = 0\<rparr> by_pid (map Some args) \<noteq> Inl ConstraintsOutOfRange"
    by blast+
  have l1: "length (constraints c1) = 2"
    using len by (simp add: pid_constrained_simps on_name_simps)
  have "length [''sh''] = length (filter usable (aConstraint on_name))"
    by (simp add: on_name_simps)
  with all have "xFilter c1 \<lparr>row = 0\<rparr> by_pid (map Some [''sh'']) \<noteq> Inl ConstraintsOutOfRange"
    by blast
  then have f1: "xFilter c1 \<lparr>row = 0\<rparr> by_pid [Some ''sh''] \<noteq> Inl ConstraintsOutOfRange"
    unfolding m1 .
  obtain c2 where r: "xFilter pid_constrained \<lparr>row = 0\<rparr> by_pid [Some ''7''] =
      Inr (SQLITE_OK, c2, \<lparr>row = 0\<rparr>)"
    using xFilter_constraints [of pid_constrained "[''7'']" by_pid "\<lparr>row = 0\<rparr>"]
    by (auto simp: pid_constrained_simps by_pid_fits)
  with inst have "length (constraints c2) = length (constraints pid_constrained)"
    by blast
  then have l2: "length (constraints c2) = 1"
    by (simp add: pid_constrained_simps)
  from a b u l1 f1 r l2 show ?thesis
    by blast
qed

text \<open>
  C8. When the allocation gives no object, \<open>xCreate\<close> returns \<open>SQLITE_NOMEM\<close> and leaves
  \<open>*ppVtab\<close> alone. Otherwise it stores the new object in \<open>*ppVtab\<close> and returns whatever
  code the schema declaration gave: when the declaration fails, the caller receives the
  error code together with the object, which nothing has released.
\<close>

theorem xCreate_hands_out_object:
  "xCreate statement declare_vtab False fresh ppVtab = (SQLITE_NOMEM, ppVtab) \<and>
   xCreate statement declare_vtab True fresh ppVtab =
     (declare_vtab (statement (name fresh) (types fresh) (column_names fresh)),
      Some \<lparr>pContent = fresh\<rparr>) \<and>
   xCreate statement (\<lambda>s. SQLITE_ERROR) True fresh None =
     (SQLITE_ERROR, Some \<lparr>pContent = fresh\<rparr>)"
  by (simp add: xCreate_def)

end
